theory Spec2Isabelle
  imports Main "HOL-Library.Sublist"
begin

section \<open>Python values used by the scraper\<close>

text \<open>
  Python strings are modelled as \<open>string\<close>; every character is read as one code point
  in the range U+0000 to U+00FF. Integers are unbounded (\<open>int\<close>). \<open>None\<close> is the
  \<open>None\<close> of an option type. A raised exception is a value: its class and the text
  that \<open>str(exc)\<close> gives. Every class here derives from \<open>Exception\<close>, so a handler
  \<open>except Exception\<close> catches every value of \<open>exc\<close>; what lies outside that class
  (\<open>KeyboardInterrupt\<close>, \<open>SystemExit\<close>) is not modelled.
\<close>

datatype exc_class =
  PlaywrightTimeoutError | PlaywrightError | ValueError | ZeroDivisionError
  | IndexError | OverflowError | OtherException

datatype exc = Exc exc_class string

fun exc_str :: "exc \<Rightarrow> string" where
  "exc_str (Exc c msg) = msg"

fun exc_cls :: "exc \<Rightarrow> exc_class" where
  "exc_cls (Exc c msg) = c"

text \<open>A dict with string keys and optional string values, in insertion order.\<close>

type_synonym pydict = "(string \<times> string option) list"

text \<open>\<open>str.isspace\<close> on the code points below 256, and \<open>str.strip()\<close>.\<close>

definition isspace :: "char \<Rightarrow> bool" where
  "isspace c = (c \<in> {CHR 0x09, CHR 0x0A, CHR 0x0B, CHR 0x0C, CHR 0x0D,
                      CHR 0x1C, CHR 0x1D, CHR 0x1E, CHR 0x1F, CHR 0x20,
                      CHR 0x85, CHR 0xA0})"

definition strip :: "string \<Rightarrow> string" where
  "strip s = rev (dropWhile isspace (rev (dropWhile isspace s)))"

text \<open>\<open>str.lower()\<close> on the code points below 256.\<close>

definition lower_char :: "char \<Rightarrow> char" where
  "lower_char c =
     (let n = (of_char c :: nat)
      in if (65 \<le> n \<and> n \<le> 90) \<or> (192 \<le> n \<and> n \<le> 222 \<and> n \<noteq> 215)
         then char_of (n + 32) else c)"

definition lower :: "string \<Rightarrow> string" where
  "lower s = map lower_char s"

text \<open>\<open>str(n)\<close> for an integer: decimal digits, with a minus sign when negative.\<close>

fun str_nat :: "nat \<Rightarrow> string" where
  "str_nat n =
     (if n < 10 then [''0123456789'' ! n]
      else str_nat (n div 10) @ [''0123456789'' ! (n mod 10)])"

declare str_nat.simps [simp del]

definition str_int :: "int \<Rightarrow> string" where
  "str_int i = (if i < 0 then ''-'' @ str_nat (nat (- i)) else str_nat (nat i))"

text \<open>\<open>sep.join(parts)\<close>.\<close>

fun join :: "string \<Rightarrow> string list \<Rightarrow> string" where
  "join sep [] = []"
| "join sep [p] = p"
| "join sep (p # q # ps) = p @ sep @ join sep (q # ps)"

text \<open>\<open>s.replace(old, new, 1)\<close>: the first occurrence of \<open>old\<close> is replaced.\<close>

fun replace_first :: "string \<Rightarrow> string \<Rightarrow> string \<Rightarrow> string" where
  "replace_first old new [] = (if old = [] then new else [])"
| "replace_first old new (c # cs) =
     (if prefix old (c # cs) then new @ drop (length old) (c # cs)
      else c # replace_first old new cs)"

text \<open>\<open>xs[i]\<close>: a negative index counts from the end, out of range raises.\<close>

definition py_index :: "'a list \<Rightarrow> int \<Rightarrow> exc + 'a" where
  "py_index xs i =
     (let j = (if i < 0 then int (length xs) + i else i)
      in if j < 0 \<or> int (length xs) \<le> j
         then Inl (Exc IndexError ''list index out of range'')
         else Inr (xs ! nat j))"

text \<open>Truthiness of an optional string and of an optional integer.\<close>

fun truthy_str :: "string option \<Rightarrow> bool" where
  "truthy_str None = False"
| "truthy_str (Some s) = (s \<noteq> [])"

fun truthy_int :: "int option \<Rightarrow> bool" where
  "truthy_int None = False"
| "truthy_int (Some i) = (i \<noteq> 0)"

text \<open>\<open>x or ""\<close> for an optional text.\<close>

definition or_empty :: "string option \<Rightarrow> string" where
  "or_empty t = (case t of None \<Rightarrow> [] | Some x \<Rightarrow> x)"

text \<open>\<open>(text or "").strip() or None\<close>, the idiom of every field read.\<close>

definition text_or_none :: "string option \<Rightarrow> string option" where
  "text_or_none t = (let s = strip (or_empty t) in if s = [] then None else Some s)"

section \<open>URL Builder\<close>

definition BASE :: string where
  "BASE = ''https://www.wineenthusiast.com/''"

text \<open>The list \<open>params\<close> that \<open>_build_search_url\<close> builds before joining it.\<close>

definition search_params :: "int \<Rightarrow> string option \<Rightarrow> int option \<Rightarrow> string list" where
  "search_params page style year =
     [''?s='', ''search_type=ratings'', ''page='' @ str_int page, ''drink_type=wine'']
     @ (if truthy_str style then [''wine_style='' @ the style] else [])
     @ (if truthy_int year then [''pub_date=%253A'' @ str_int (the year)] else [])"

definition build_search_url :: "int \<Rightarrow> string option \<Rightarrow> int option \<Rightarrow> string" where
  "build_search_url page style year = BASE @ join ''&'' (search_params page style year)"

text \<open>
  The parameters that a reader of a URL finds in it: the pieces of the text after the
  base, cut at every \<open>&\<close> (as \<open>str.split('&')\<close> cuts).
\<close>

fun split_on :: "char \<Rightarrow> string \<Rightarrow> string list" where
  "split_on c [] = [[]]"
| "split_on c (x # xs) =
     (if x = c then [] # split_on c xs
      else (case split_on c xs of [] \<Rightarrow> [[x]] | p # ps \<Rightarrow> (x # p) # ps))"



section \<open>Detail Extractor: the pure part\<close>

record regions =
  country :: "string option"
  region_1 :: "string option"
  region_2 :: "string option"
  region_3 :: "string option"

text \<open>
  Lines 303 to 314 of \<open>fetch_detail\<close>. Each conditional expression tests its condition
  first (\<open>and\<close> evaluates its right operand only when the left one holds) and only then
  reads the list again for the value.
\<close>

definition nth_from_end :: "string list \<Rightarrow> int \<Rightarrow> string option \<Rightarrow> exc + string option" where
  "nth_from_end region_list k region_value =
     (if int (length region_list) > k - 1 then
        (case py_index region_list (- k) of
           Inl e \<Rightarrow> Inl e
         | Inr x \<Rightarrow>
             if Some x \<noteq> region_value then
               (case py_index region_list (- k) of
                  Inl e \<Rightarrow> Inl e
                | Inr y \<Rightarrow> Inr (Some y))
             else Inr None)
      else Inr None)"

definition derive_regions :: "string list \<Rightarrow> string option \<Rightarrow> exc + regions" where
  "derive_regions region_list region_value =
     (case (if region_list \<noteq> []
            then (case py_index region_list (- 1) of Inl e \<Rightarrow> Inl e | Inr x \<Rightarrow> Inr (Some x))
            else Inr None) of
        Inl e \<Rightarrow> Inl e
      | Inr c \<Rightarrow>
          (let r1 = (if truthy_str region_value \<and> the region_value \<in> set region_list
                     then region_value else None)
           in case nth_from_end region_list 2 region_value of
                Inl e \<Rightarrow> Inl e
              | Inr r2 \<Rightarrow>
                  (case nth_from_end region_list 3 region_value of
                     Inl e \<Rightarrow> Inl e
                   | Inr r3 \<Rightarrow>
                       Inr \<lparr>country = c, region_1 = r1, region_2 = r2, region_3 = r3\<rparr>)))"

text \<open>The nested helper \<open>_strip_label\<close>.\<close>

definition strip_label :: "string option \<Rightarrow> string \<Rightarrow> string option" where
  "strip_label text label =
     (if \<not> truthy_str text then None
      else if prefix label (the text)
        then Some (strip (replace_first (label @ []) [] (the text)))
        else Some (strip (the text)))"

text \<open>
  The region list of lines 294 to 298: the trimmed text of every element the positional
  query matched, without the empty ones.
\<close>

definition region_list_of :: "string option list \<Rightarrow> string list" where
  "region_list_of texts =
     filter (\<lambda>x. x \<noteq> []) (map (\<lambda>t. strip (or_empty t)) texts)"

section \<open>Link Collector: deduplication\<close>

text \<open>
  \<open>df.drop_duplicates(subset=[key])\<close> with pandas' default \<open>keep='first'\<close>: a row is
  dropped when an earlier row has the same value under \<open>key\<close>. \<open>seen\<close> holds the values
  of the rows already passed.
\<close>

fun drop_dups :: "string \<Rightarrow> string option option list \<Rightarrow> pydict list \<Rightarrow> pydict list" where
  "drop_dups key seen [] = []"
| "drop_dups key seen (r # rs) =
     (if map_of r key \<in> set seen then drop_dups key seen rs
      else r # drop_dups key (map_of r key # seen) rs)"

definition drop_duplicates :: "string \<Rightarrow> pydict list \<Rightarrow> pydict list" where
  "drop_duplicates key rows = drop_dups key [] rows"

text \<open>Lines 266 to 268: the frame is deduplicated unless it is empty.\<close>

definition links_frame :: "pydict list \<Rightarrow> pydict list" where
  "links_frame rows = (if rows \<noteq> [] then drop_duplicates ''URL'' rows else rows)"

definition link_row :: "string \<Rightarrow> string \<Rightarrow> pydict" where
  "link_row name href = [(''Wine Name'', Some name), (''URL'', Some href)]"

section \<open>The world outside the scraper\<close>

text \<open>
  Time is counted in microseconds, the resolution of \<open>datetime\<close>; a duration in seconds
  such as \<open>0.6\<close> is the integer 600000. The random generator is the list of its
  upcoming raw draws (0 once the list is used up). Console lines, sleeps, mouse-wheel
  steps, session handling and written files are recorded as events, oldest first. Only a
  sleep moves the clock.
\<close>

datatype event =
  Printed string
  | Slept int
  | Wheel int
  | SessionOpened bool
  | StateSaved string
  | ContextClosed
  | BrowserClosed
  | WroteCsv string "pydict list"

text \<open>An element a locator found: its \<open>text_content()\<close> and its \<open>href\<close> attribute.\<close>

record element =
  text_content :: "string option"
  href :: "string option"

text \<open>
  What the automation library answers about a loaded page at one moment: the text of the
  first match of a selector, all matches of a selector, and what a wait for a selector
  with a timeout (milliseconds) raises, if anything. Reads of a loaded page are taken to
  succeed; navigation and the wait for a selector can raise.
\<close>

record snapshot =
  first_text :: "string \<Rightarrow> string option"
  all_elements :: "string \<Rightarrow> element list"
  wait_error :: "string \<Rightarrow> int \<Rightarrow> exc option"

text \<open>The site: for a URL and a time, whether navigation raises and what the page shows.\<close>

record web =
  goto_error :: "string \<Rightarrow> int \<Rightarrow> exc option"
  dom :: "string \<Rightarrow> int \<Rightarrow> snapshot"

record world =
  clock :: int
  randoms :: "nat list"
  events :: "event list"
  location :: string
  site :: web

record browser_config =
  headless :: bool
  user_data_dir :: "string option"
  use_chrome_channel :: bool
  storage_state_path :: "string option"
  user_agent :: string
  locale_id :: string
  timezone_id :: string
  viewport_min :: "int \<times> int"
  viewport_max :: "int \<times> int"
  manual_challenge :: bool
  challenge_timeout_s :: int
  cooldown_range_s :: "int \<times> int"

definition DEFAULT_UA :: string where
  "DEFAULT_UA = ''Mozilla/5.0 (Windows NT 10.0; Win64; x64) AppleWebKit/537.36 ''
                @ ''(KHTML, like Gecko) Chrome/124.0 Safari/537.36''"

definition default_config :: browser_config where
  "default_config =
     \<lparr>headless = False, user_data_dir = Some ''.we_profile'', use_chrome_channel = True,
      storage_state_path = None, user_agent = DEFAULT_UA, locale_id = ''en-US'',
      timezone_id = ''America/Los_Angeles'', viewport_min = (1200, 750),
      viewport_max = (1600, 1000), manual_challenge = True, challenge_timeout_s = 180,
      cooldown_range_s = (12, 22)\<rparr>"

definition log_event :: "event \<Rightarrow> world \<Rightarrow> world" where
  "log_event ev w = w\<lparr>events := events w @ [ev]\<rparr>"

definition utcnow :: "world \<Rightarrow> int" where
  "utcnow w = clock w"

text \<open>
  \<open>time.sleep(d)\<close> refuses a negative duration, and one whose nanoseconds do not fit 64
  bits (more than 9223372036854775 microseconds).
\<close>

definition sleep :: "int \<Rightarrow> world \<Rightarrow> (exc + unit) \<times> world" where
  "sleep d w =
     (if d < 0 then (Inl (Exc ValueError ''sleep length must be non-negative''), w)
      else if 9223372036854775 < d
        then (Inl (Exc OverflowError ''timestamp too large to convert to C _PyTime_t''), w)
      else (Inr (), log_event (Slept d) (w\<lparr>clock := clock w + d\<rparr>)))"

text \<open>
  \<open>timedelta(seconds=s)\<close> as microseconds: it raises when its whole days exceed
  999999999 in magnitude. \<open>datetime + timedelta\<close> raises when the sum leaves the years
  1 to 9999 (given here in microseconds since 1970).
\<close>

definition timedelta_seconds :: "int \<Rightarrow> exc + int" where
  "timedelta_seconds s =
     (if s div 86400 < - 999999999 \<or> 999999999 < s div 86400
      then Inl (Exc OverflowError (''days='' @ str_int (s div 86400)
                                   @ ''; must have magnitude <= 999999999''))
      else Inr (s * 1000000))"

definition DATETIME_MIN :: int where
  "DATETIME_MIN = - 62135596800000000"

definition DATETIME_MAX :: int where
  "DATETIME_MAX = 253402300799999999"

definition datetime_add :: "int \<Rightarrow> int \<Rightarrow> exc + int" where
  "datetime_add t delta =
     (if t + delta < DATETIME_MIN \<or> DATETIME_MAX < t + delta
      then Inl (Exc OverflowError ''date value out of range'')
      else Inr (t + delta))"

definition raw_draw :: "world \<Rightarrow> nat \<times> world" where
  "raw_draw w = (case randoms w of [] \<Rightarrow> (0, w) | r # rs \<Rightarrow> (r, w\<lparr>randoms := rs\<rparr>))"

text \<open>\<open>random()\<close>, a fraction in millionths: at least 0 and below 1000000.\<close>

definition random :: "world \<Rightarrow> int \<times> world" where
  "random w = (case raw_draw w of (r, w1) \<Rightarrow> (int (r mod 1000000), w1))"

text \<open>
  \<open>randint(a, b)\<close>, which is \<open>randrange(a, b + 1)\<close>: an integer from a to b, both
  included; an empty range raises (the text is that of Python 3.11).
\<close>

definition randint :: "int \<Rightarrow> int \<Rightarrow> world \<Rightarrow> (exc + int) \<times> world" where
  "randint a b w =
     (if b < a
      then (Inl (Exc ValueError (''empty range for randrange() ('' @ str_int a @ '', ''
                                  @ str_int (b + 1) @ '', '' @ str_int (b + 1 - a) @ '')'')), w)
      else (case raw_draw w of (r, w1) \<Rightarrow> (Inr (a + int r mod (b - a + 1)), w1)))"

definition human_pause :: "int \<Rightarrow> int \<Rightarrow> world \<Rightarrow> (exc + unit) \<times> world" where
  "human_pause a b w =
     (case (if a \<le> b then (a, b) else (b, a)) of
        (lo, hi) \<Rightarrow>
          (case random w of (r, w1) \<Rightarrow> sleep (lo + (r * (hi - lo)) div 1000000) w1))"

definition viewport :: "browser_config \<Rightarrow> world \<Rightarrow> (exc + int \<times> int) \<times> world" where
  "viewport cfg w =
     (case randint (fst (viewport_min cfg)) (fst (viewport_max cfg)) w of
        (Inl e, w1) \<Rightarrow> (Inl e, w1)
      | (Inr wd, w1) \<Rightarrow>
          (case randint (snd (viewport_min cfg)) (snd (viewport_max cfg)) w1 of
             (Inl e, w2) \<Rightarrow> (Inl e, w2)
           | (Inr h, w2) \<Rightarrow> (Inr (wd, h), w2)))"

fun incremental_scroll :: "nat \<Rightarrow> world \<Rightarrow> (exc + unit) \<times> world" where
  "incremental_scroll 0 w = (Inr (), w)"
| "incremental_scroll (Suc n) w =
     (case randint 400 900 w of
        (Inl e, w1) \<Rightarrow> (Inl e, w1)
      | (Inr dy, w1) \<Rightarrow>
          (case human_pause 200000 600000 (log_event (Wheel dy) w1) of
             (Inl e, w2) \<Rightarrow> (Inl e, w2)
           | (Inr u, w2) \<Rightarrow> incremental_scroll n w2))"

text \<open>The page as the library shows it now.\<close>

definition view :: "world \<Rightarrow> snapshot" where
  "view w = dom (site w) (location w) (clock w)"

definition goto :: "string \<Rightarrow> world \<Rightarrow> (exc + unit) \<times> world" where
  "goto url w =
     (case goto_error (site w) url (clock w) of
        Some e \<Rightarrow> (Inl e, w)
      | None \<Rightarrow> (Inr (), w\<lparr>location := url\<rparr>))"

definition wait_for_selector :: "string \<Rightarrow> int \<Rightarrow> world \<Rightarrow> (exc + unit) \<times> world" where
  "wait_for_selector sel timeout w =
     (case wait_error (view w) sel timeout of
        Some e \<Rightarrow> (Inl e, w)
      | None \<Rightarrow> (Inr (), w))"

section \<open>Challenge Detector and Handler\<close>

definition CAPTCHA_FRAMES :: string where
  \<open>CAPTCHA_FRAMES = ''iframe[src*='captcha'], iframe[src*='challenge']''\<close>

definition looks_like_challenge :: "world \<Rightarrow> bool" where
  "looks_like_challenge w =
     (let body = lower (or_empty (first_text (view w) ''body''))
      in if sublist ''unusual activity'' body \<or> sublist ''verify you are a human'' body
            \<or> sublist ''captcha'' body
         then True
         else if length (all_elements (view w) CAPTCHA_FRAMES) > 0 then True
         else False)"

text \<open>
  The poll loop of \<open>_handle_challenge\<close>. The result \<open>Inr True\<close> is the \<open>return\<close> inside
  the loop (the challenge is gone); \<open>Inr False\<close> is the loop ending at the deadline.
\<close>

function challenge_wait :: "int \<Rightarrow> world \<Rightarrow> (exc + bool) \<times> world" where
  "challenge_wait deadline w =
     (if utcnow w < deadline then
        (case human_pause 1000000 2000000 w of
           (Inl e, w1) \<Rightarrow> (Inl e, w1)
         | (Inr u, w1) \<Rightarrow>
             if \<not> looks_like_challenge w1 then (Inr True, w1)
             else challenge_wait deadline w1)
      else (Inr False, w))"
  by pat_completeness auto

lemma raw_draw_clock: "clock (snd (raw_draw w)) = clock w"
  by (simp add: raw_draw_def split: list.splits)

lemma human_pause_clock:
  assumes "human_pause 1000000 2000000 w = (Inr u, w1)"
  shows "clock w + 1000000 \<le> clock w1"
proof -
  obtain r w0 where r: "raw_draw w = (r, w0)" by (cases "raw_draw w")
  have c: "clock w0 = clock w" using raw_draw_clock[of w] r by simp
  let ?d = "1000000 + (int (r mod 1000000) * (2000000 - 1000000)) div 1000000"
  have d: "1000000 \<le> ?d" by simp
  have "human_pause 1000000 2000000 w = sleep ?d w0"
    by (simp add: human_pause_def random_def r)
  then have "sleep ?d w0 = (Inr u, w1)" using assms by simp
  then have "clock w1 = clock w0 + ?d"
    using d by (auto simp: sleep_def log_event_def split: if_splits)
  then show ?thesis using c d by linarith
qed

termination challenge_wait
proof (relation "measure (\<lambda>(d, w). nat (d - clock w))")
  show "wf (measure (\<lambda>(d, w). nat (d - clock w)))" by simp
next
  fix deadline w x1 x2 y
  assume a: "utcnow w < deadline" and b: "(x1, x2) = human_pause 1000000 2000000 w"
     and c: "x1 = Inr y" and d: "\<not> \<not> looks_like_challenge x2"
  have "clock w + 1000000 \<le> clock x2" using b c human_pause_clock[of w y x2] by simp
  then show "((deadline, x2), (deadline, w)) \<in> measure (\<lambda>(d, w). nat (d - clock w))"
    using a by (simp add: utcnow_def)
qed

declare challenge_wait.simps [simp del]

definition CHALLENGE_PROMPT :: string where
  "CHALLENGE_PROMPT = ''Challenge detected. Solve it in the visible browser window.''"

definition cooling_message :: "int \<Rightarrow> string" where
  "cooling_message wait_s = ''Cooling down for '' @ str_int wait_s @ ''s due to challenge...''"

text \<open>
  \<open>_handle_challenge\<close>. The deadline of line 133 is computed whether or not manual
  intervention is on, and its computation can raise.
\<close>

definition handle_challenge :: "browser_config \<Rightarrow> world \<Rightarrow> (exc + unit) \<times> world" where
  "handle_challenge cfg w =
     (if \<not> looks_like_challenge w then (Inr (), w)
      else
        (case timedelta_seconds (challenge_timeout_s cfg) of
           Inl e \<Rightarrow> (Inl e, w)
         | Inr delta \<Rightarrow>
        (case datetime_add (utcnow w) delta of
           Inl e \<Rightarrow> (Inl e, w)
         | Inr deadline \<Rightarrow>
        (case (if manual_challenge cfg
               then challenge_wait deadline (log_event (Printed CHALLENGE_PROMPT) w)
               else (Inr False, w)) of
           (Inl e, w1) \<Rightarrow> (Inl e, w1)
         | (Inr True, w1) \<Rightarrow> (Inr (), w1)
         | (Inr False, w1) \<Rightarrow>
             (case randint (fst (cooldown_range_s cfg)) (snd (cooldown_range_s cfg)) w1 of
                (Inl e, w2) \<Rightarrow> (Inl e, w2)
              | (Inr wait_s, w2) \<Rightarrow>
                  sleep (wait_s * 1000000)
                    (log_event (Printed (cooling_message wait_s)) w2))))))"

section \<open>Session Manager\<close>

text \<open>
  \<open>_new_context\<close> answers whether it hands back a browser handle (it does not in
  persistent-profile mode); a new page is blank.
\<close>

definition new_context :: "browser_config \<Rightarrow> world \<Rightarrow> (exc + bool) \<times> world" where
  "new_context cfg w =
     (case viewport cfg w of
        (Inl e, w1) \<Rightarrow> (Inl e, w1)
      | (Inr vp, w1) \<Rightarrow>
          if truthy_str (user_data_dir cfg)
          then (Inr False, log_event (SessionOpened True) (w1\<lparr>location := ''about:blank''\<rparr>))
          else (Inr True, log_event (SessionOpened False) (w1\<lparr>location := ''about:blank''\<rparr>)))"

definition save_state :: "browser_config \<Rightarrow> world \<Rightarrow> world" where
  "save_state cfg w =
     (if truthy_str (storage_state_path cfg)
      then log_event (StateSaved (the (storage_state_path cfg))) w else w)"

definition close_session :: "bool \<Rightarrow> world \<Rightarrow> world" where
  "close_session browser w =
     (let w1 = log_event ContextClosed w
      in if browser then log_event BrowserClosed w1 else w1)"

section \<open>Detail Extractor\<close>

definition REGION_XPATH :: string where
  \<open>REGION_XPATH = ''xpath=//*[@id="single-page"]/header/div/div/div/div/div[2]/span[2]/a''\<close>

text \<open>Lines 292 to 354 of \<open>fetch_detail\<close>: the fields read from the loaded page.\<close>

definition read_detail :: "string \<Rightarrow> snapshot \<Rightarrow> exc + pydict" where
  "read_detail url page =
     (let title = text_or_none (first_text page ''.review-title'');
          region_list = region_list_of (map text_content (all_elements page REGION_XPATH));
          region_value = text_or_none (first_text page ''div.region .value a'')
      in case derive_regions region_list region_value of
           Inl e \<Rightarrow> Inl e
         | Inr rg \<Rightarrow>
             (let score = strip_label (text_or_none (first_text page ''.score'')) ''RATING'';
                  price = strip_label (text_or_none (first_text page ''.price'')) ''PRICE'';
                  winery = text_or_none (first_text page ''div.winery .value a'');
                  variety = text_or_none (first_text page ''div.variety .value a'');
                  wine_type = text_or_none (first_text page ''div.wine-type .value a'')
              in Inr [(''Wine Name'', title), (''Region 1'', region_1 rg),
                      (''Region 2'', region_2 rg), (''Region 3'', region_3 rg),
                      (''Country'', country rg), (''Score'', score), (''Price'', price),
                      (''Winery'', winery), (''Variety'', variety),
                      (''Wine Type'', wine_type), (''URL'', Some url)]))"

text \<open>
  \<open>fetch_detail\<close>: the session is opened before the \<open>try\<close>; whatever the body returns or
  raises, the \<open>finally\<close> block saves the state and closes the session.
\<close>

definition fetch_detail :: "browser_config \<Rightarrow> string \<Rightarrow> world \<Rightarrow> (exc + pydict) \<times> world" where
  "fetch_detail cfg url w =
     (case new_context cfg w of
        (Inl e, w0) \<Rightarrow> (Inl e, w0)
      | (Inr browser, w0) \<Rightarrow>
          (case (case goto url w0 of
                   (Inl e, w1) \<Rightarrow> (Inl e, w1)
                 | (Inr u, w1) \<Rightarrow>
                     (case handle_challenge cfg w1 of
                        (Inl e, w2) \<Rightarrow> (Inl e, w2)
                      | (Inr u, w2) \<Rightarrow>
                          (case wait_for_selector ''.review-title'' 15000 w2 of
                             (Inl e, w3) \<Rightarrow> (Inl e, w3)
                           | (Inr u, w3) \<Rightarrow> (read_detail url (view w3), w3)))) of
             (res, w4) \<Rightarrow> (res, close_session browser (save_state cfg w4))))"

section \<open>Link Collector\<close>

definition LISTING_ANCHOR :: string where
  "LISTING_ANCHOR = ''.ratings-block__info h3.info__title a''"

text \<open>Lines 254 to 258: a row for every anchor with a name and a link.\<close>

fun anchors_loop :: "element list \<Rightarrow> pydict list \<Rightarrow> pydict list" where
  "anchors_loop [] acc = acc"
| "anchors_loop (a # as) acc =
     (let name = strip (or_empty (text_content a)); h = href a
      in if name \<noteq> [] \<and> truthy_str h
         then anchors_loop as (acc @ [link_row name (the h)])
         else anchors_loop as acc)"

text \<open>
  The loop over the page numbers (lines 239 to 259). A \<open>PlaywrightTimeoutError\<close> of the
  wait for the listing anchor is caught and the loop goes on with the next page; any
  other exception leaves the loop.
\<close>

fun pages_loop ::
  "browser_config \<Rightarrow> string option \<Rightarrow> int option \<Rightarrow> int list \<Rightarrow> pydict list \<Rightarrow> world
     \<Rightarrow> (exc + pydict list) \<times> world" where
  "pages_loop cfg sty yr [] acc w = (Inr acc, w)"
| "pages_loop cfg sty yr (pg # pgs) acc w =
     (case goto (build_search_url pg sty yr) w of
        (Inl e, w1) \<Rightarrow> (Inl e, w1)
      | (Inr u, w1) \<Rightarrow>
     (case handle_challenge cfg w1 of
        (Inl e, w2) \<Rightarrow> (Inl e, w2)
      | (Inr u, w2) \<Rightarrow>
     (case human_pause 400000 900000 w2 of
        (Inl e, w3) \<Rightarrow> (Inl e, w3)
      | (Inr u, w3) \<Rightarrow>
     (case incremental_scroll 3 w3 of
        (Inl e, w4) \<Rightarrow> (Inl e, w4)
      | (Inr u, w4) \<Rightarrow>
     (case wait_for_selector LISTING_ANCHOR 10000 w4 of
        (Inl e, w5) \<Rightarrow>
          if exc_cls e = PlaywrightTimeoutError then pages_loop cfg sty yr pgs acc w5
          else (Inl e, w5)
      | (Inr u, w5) \<Rightarrow>
          (case human_pause 600000 1400000 w5 of
             (Inl e, w6) \<Rightarrow> (Inl e, w6)
           | (Inr u, w6) \<Rightarrow>
               pages_loop cfg sty yr pgs
                 (anchors_loop (all_elements (view w5) LISTING_ANCHOR) acc) w6))))))"

fun years_loop ::
  "browser_config \<Rightarrow> string option \<Rightarrow> int option list \<Rightarrow> int \<Rightarrow> pydict list \<Rightarrow> world
     \<Rightarrow> (exc + pydict list) \<times> world" where
  "years_loop cfg sty [] max_pages acc w = (Inr acc, w)"
| "years_loop cfg sty (yr # yrs) max_pages acc w =
     (case pages_loop cfg sty yr [1..max_pages] acc w of
        (Inl e, w1) \<Rightarrow> (Inl e, w1)
      | (Inr acc1, w1) \<Rightarrow> years_loop cfg sty yrs max_pages acc1 w1)"

fun styles_loop ::
  "browser_config \<Rightarrow> string option list \<Rightarrow> int option list \<Rightarrow> int \<Rightarrow> pydict list \<Rightarrow> world
     \<Rightarrow> (exc + pydict list) \<times> world" where
  "styles_loop cfg [] years_iter max_pages acc w = (Inr acc, w)"
| "styles_loop cfg (sty # stys) years_iter max_pages acc w =
     (case years_loop cfg sty years_iter max_pages acc w of
        (Inl e, w1) \<Rightarrow> (Inl e, w1)
      | (Inr acc1, w1) \<Rightarrow> styles_loop cfg stys years_iter max_pages acc1 w1)"

text \<open>\<open>list(xs) if xs else [None]\<close>.\<close>

definition iter_or_none :: "'a list option \<Rightarrow> 'a option list" where
  "iter_or_none xs = (case xs of None \<Rightarrow> [None] | Some [] \<Rightarrow> [None] | Some ys \<Rightarrow> map Some ys)"

definition collect_links ::
  "browser_config \<Rightarrow> int \<Rightarrow> string list option \<Rightarrow> int list option \<Rightarrow> string option \<Rightarrow> world
     \<Rightarrow> (exc + pydict list) \<times> world" where
  "collect_links cfg max_pages styles years out_csv w =
     (case new_context cfg w of
        (Inl e, w0) \<Rightarrow> (Inl e, w0)
      | (Inr browser, w0) \<Rightarrow>
          (case (case styles_loop cfg (iter_or_none styles) (iter_or_none years) max_pages [] w0 of
                   (Inl e, w1) \<Rightarrow> (Inl e, w1)
                 | (Inr acc, w1) \<Rightarrow> (Inr acc, save_state cfg w1)) of
             (Inl e, w2) \<Rightarrow> (Inl e, close_session browser w2)
           | (Inr acc, w2) \<Rightarrow>
               (let df = links_frame acc; w3 = close_session browser w2
                in (Inr df, if truthy_str out_csv
                            then log_event (WroteCsv (the out_csv) df) w3 else w3))))"

section \<open>Batch Runner\<close>

text \<open>
  The frame read from the links CSV: its column names and its rows, a row giving the cell
  under each column name. \<open>str(cell)\<close> of a missing value is \<open>nan\<close>. A number is
  given by the text that \<open>str\<close> makes of it, its first character and the rest: that
  text depends on how \<open>iterrows()\<close> types the row (7 is handed over as 7.0 when the
  row holds a float as well).
\<close>

datatype cell = NaN | Text string | Number char string

fun py_str :: "cell \<Rightarrow> string" where
  "py_str NaN = ''nan''"
| "py_str (Text s) = s"
| "py_str (Number c s) = c # s"

record dataframe =
  columns :: "string list"
  records :: "(string \<Rightarrow> cell) list"

text \<open>Line 381. \<open>r.get(key, default)\<close> gives the default when the row has no such column.\<close>

definition url_of :: "string list \<Rightarrow> (string \<Rightarrow> cell) \<Rightarrow> string" where
  "url_of cols r =
     (if ''URL'' \<in> set cols then py_str (r ''URL'')
      else py_str (if ''url'' \<in> set cols then r ''url'' else Text []))"

definition error_row :: "string \<Rightarrow> exc \<Rightarrow> pydict" where
  "error_row url e = [(''URL'', Some url), (''error'', Some (exc_str e))]"

text \<open>
  The state of the batch: the rows gathered so far, every \<open>to_csv\<close> call so far (path and
  frame written, oldest first), and the world the fetches act on.
\<close>

record 'w batch =
  acc_rows :: "pydict list"
  written :: "(string \<times> pydict list) list"
  env :: 'w

text \<open>
  The loop of \<open>scrape_details_from_csv\<close> (lines 380 to 392) from row index \<open>i\<close> on. The
  fetch is a parameter; \<open>Inl\<close> is an exception of class \<open>Exception\<close> that it raised.
  \<open>(i + 1) % checkpoint_every\<close> is evaluated only when an output path is set, and raises
  for the interval 0.
\<close>

fun batch_loop ::
  "(string \<Rightarrow> 'w \<Rightarrow> (exc + pydict) \<times> 'w) \<Rightarrow> string list \<Rightarrow> string option \<Rightarrow> int \<Rightarrow> int
     \<Rightarrow> (string \<Rightarrow> cell) list \<Rightarrow> 'w batch \<Rightarrow> exc + 'w batch" where
  "batch_loop fetch cols out_csv checkpoint_every i [] st = Inr st"
| "batch_loop fetch cols out_csv checkpoint_every i (r # rs) st =
     (let url = url_of cols r
      in if url = [] then batch_loop fetch cols out_csv checkpoint_every (i + 1) rs st
         else
           (case fetch url (env st) of
              (res, w1) \<Rightarrow>
                (let st1 = st\<lparr>acc_rows := acc_rows st @
                                 [case res of Inr rc \<Rightarrow> rc | Inl e \<Rightarrow> error_row url e],
                              env := w1\<rparr>
                 in if truthy_str out_csv then
                      (if checkpoint_every = 0
                       then Inl (Exc ZeroDivisionError ''integer modulo by zero'')
                       else if (i + 1) mod checkpoint_every = 0
                         then batch_loop fetch cols out_csv checkpoint_every (i + 1) rs
                                (st1\<lparr>written := written st1 @ [(the out_csv, acc_rows st1)]\<rparr>)
                         else batch_loop fetch cols out_csv checkpoint_every (i + 1) rs st1)
                    else batch_loop fetch cols out_csv checkpoint_every (i + 1) rs st1)))"

text \<open>The whole operation: the returned frame and the final state.\<close>

definition scrape_details_from_csv ::
  "(string \<Rightarrow> 'w \<Rightarrow> (exc + pydict) \<times> 'w) \<Rightarrow> dataframe \<Rightarrow> string option \<Rightarrow> int \<Rightarrow> 'w
     \<Rightarrow> exc + (pydict list \<times> 'w batch)" where
  "scrape_details_from_csv fetch df_links out_csv checkpoint_every w =
     (case batch_loop fetch (columns df_links) out_csv checkpoint_every 0 (records df_links)
             \<lparr>acc_rows = [], written = [], env = w\<rparr> of
        Inl e \<Rightarrow> Inl e
      | Inr st \<Rightarrow>
          (let result = acc_rows st
           in Inr (result,
                   if truthy_str out_csv
                   then st\<lparr>written := written st @ [(the out_csv, result)]\<rparr> else st)))"

section \<open>The Batch Runner by its description, and example inputs\<close>

text \<open>
  What the description of the Batch Runner says it returns for a list of URLs: in order,
  for each URL the record its fetch returns, or the error row when the fetch raises.
\<close>

fun fetch_all ::
  "(string \<Rightarrow> 'w \<Rightarrow> (exc + pydict) \<times> 'w) \<Rightarrow> string list \<Rightarrow> 'w \<Rightarrow> pydict list \<times> 'w" where
  "fetch_all fetch [] w = ([], w)"
| "fetch_all fetch (u # us) w =
     (case fetch u w of
        (res, w1) \<Rightarrow>
          (case fetch_all fetch us w1 of
             (rest, w2) \<Rightarrow> ((case res of Inr rc \<Rightarrow> rc | Inl e \<Rightarrow> error_row u e) # rest, w2)))"

text \<open>A links frame with neither a \<open>URL\<close> nor a \<open>url\<close> column.\<close>

definition links_without_url :: dataframe where
  "links_without_url =
     \<lparr>columns = [''Wine Name'', ''Link''],
      records = [\<lambda>c. if c = ''Wine Name'' then Text ''Alpha 2019'' else Text ''/r/1'']\<rparr>"

definition two_links :: dataframe where
  "two_links =
     \<lparr>columns = [''Wine Name'', ''URL''],
      records = [\<lambda>c. if c = ''Wine Name'' then Text ''Alpha 2019'' else Text ''/r/1'',
                 \<lambda>c. if c = ''Wine Name'' then Text ''Beta'' else Text ''/r/2'']\<rparr>"

text \<open>A fetch that fails on one URL; its world counts the fetches.\<close>

definition flaky_fetch :: "string \<Rightarrow> nat \<Rightarrow> (exc + pydict) \<times> nat" where
  "flaky_fetch url n =
     (if url = ''/r/1'' then (Inl (Exc PlaywrightTimeoutError ''Timeout 15000ms exceeded.''), Suc n)
      else (Inr [(''Wine Name'', Some ''Beta''), (''URL'', Some url)], Suc n))"

text \<open>A links frame of 250 rows.\<close>

definition links_250 :: dataframe where
  "links_250 =
     \<lparr>columns = [''Wine Name'', ''URL''],
      records = map (\<lambda>n c. if c = ''Wine Name'' then NaN else Text (''/r/'' @ str_nat n))
                    [0..<250]\<rparr>"

text \<open>A links frame of 250 rows with neither a \<open>URL\<close> nor a \<open>url\<close> column.\<close>

definition links_250_without_url :: dataframe where
  "links_250_without_url =
     \<lparr>columns = [''Wine Name'', ''Link''],
      records = map (\<lambda>n c. if c = ''Wine Name'' then NaN else Text (''/r/'' @ str_nat n))
                    [0..<250]\<rparr>"

text \<open>Example pages and sites. A world starts at time 0 with a blank page.\<close>

definition captcha_page :: snapshot where
  "captcha_page =
     \<lparr>first_text = (\<lambda>sel. if sel = ''body'' then Some ''Solve the CAPTCHA to continue'' else None),
      all_elements = (\<lambda>sel. []),
      wait_error = (\<lambda>sel timeout. Some (Exc PlaywrightTimeoutError ''Timeout exceeded.''))\<rparr>"

definition plain_page :: snapshot where
  "plain_page =
     \<lparr>first_text = (\<lambda>sel. if sel = ''body'' then Some ''Wine reviews'' else None),
      all_elements = (\<lambda>sel. []),
      wait_error = (\<lambda>sel timeout. None)\<rparr>"

text \<open>A site that shows a challenge for ever, and one whose challenge is gone after a second.\<close>

definition blocked_site :: web where
  "blocked_site = \<lparr>goto_error = (\<lambda>url t. None), dom = (\<lambda>url t. captcha_page)\<rparr>"

definition solved_site :: web where
  "solved_site =
     \<lparr>goto_error = (\<lambda>url t. None),
      dom = (\<lambda>url t. if t < 1000000 then captcha_page else plain_page)\<rparr>"

definition start_world :: "web \<Rightarrow> nat list \<Rightarrow> world" where
  "start_world s rs =
     \<lparr>clock = 0, randoms = rs, events = [], location = ''about:blank'', site = s\<rparr>"

definition empty_page :: snapshot where
  "empty_page =
     \<lparr>first_text = (\<lambda>sel. if sel = ''body'' then Some ''Wine reviews'' else None),
      all_elements = (\<lambda>sel. []),
      wait_error = (\<lambda>sel timeout. Some (Exc PlaywrightTimeoutError ''Timeout exceeded.''))\<rparr>"

definition empty_site :: web where
  "empty_site = \<lparr>goto_error = (\<lambda>url t. None), dom = (\<lambda>url t. empty_page)\<rparr>"

definition listing_page :: snapshot where
  "listing_page =
     \<lparr>first_text = (\<lambda>sel. if sel = ''body'' then Some ''Wine reviews'' else None),
      all_elements = (\<lambda>sel. if sel = LISTING_ANCHOR
                             then [\<lparr>text_content = Some '' Alpha 2019 '', href = Some ''/r/1''\<rparr>,
                                   \<lparr>text_content = Some ''Beta'', href = Some ''/r/2''\<rparr>,
                                   \<lparr>text_content = Some ''Alpha (again)'', href = Some ''/r/1''\<rparr>,
                                   \<lparr>text_content = Some ''No link'', href = None\<rparr>]
                             else []),
      wait_error = (\<lambda>sel timeout. None)\<rparr>"

definition listing_site :: web where
  "listing_site = \<lparr>goto_error = (\<lambda>url t. None), dom = (\<lambda>url t. listing_page)\<rparr>"


section \<open>Properties of the pure functions\<close>


















lemma split_on_nonempty: "split_on c xs \<noteq> []"
  by (induction xs) (auto split: list.splits)









lemma strip_parts:
  "\<exists>a b. s = a @ strip s @ b \<and> list_all isspace a \<and> list_all isspace b"
proof -
  let ?m = "dropWhile isspace s"
  have 1: "s = takeWhile isspace s @ ?m" by simp
  have 2: "rev ?m = takeWhile isspace (rev ?m) @ dropWhile isspace (rev ?m)" by simp
  have 3: "?m = strip s @ rev (takeWhile isspace (rev ?m))"
    unfolding strip_def using arg_cong[OF 2, of rev] by (simp del: takeWhile_dropWhile_id)
  have "s = takeWhile isspace s @ strip s @ rev (takeWhile isspace (rev ?m))"
    using 1 3 by metis
  moreover have "list_all isspace (takeWhile isspace s)"
    by (simp add: list_all_iff) (meson set_takeWhileD)
  moreover have "list_all isspace (rev (takeWhile isspace (rev ?m)))"
    by (simp add: list_all_iff) (meson set_takeWhileD)
  ultimately show ?thesis by blast
qed

lemma dropWhile_hd: "dropWhile P xs \<noteq> [] \<Longrightarrow> \<not> P (hd (dropWhile P xs))"
  by (metis hd_dropWhile)

lemma strip_ends:
  assumes "strip s \<noteq> []"
  shows "\<not> isspace (hd (strip s)) \<and> \<not> isspace (last (strip s))"
proof -
  let ?m = "dropWhile isspace s"
  let ?r = "dropWhile isspace (rev ?m)"
  have r: "?r \<noteq> []" using assms by (simp add: strip_def)
  have m: "?m \<noteq> []" using r by (cases "?m") simp_all
  have l: "\<not> isspace (hd ?r)" using r by (rule dropWhile_hd)
  have "last (strip s) = hd ?r" using r by (simp add: strip_def last_rev)
  moreover have "hd (strip s) = last ?r" using r by (simp add: strip_def hd_rev)
  moreover have "last ?r = last (rev ?m)"
    using r by (metis last_appendR takeWhile_dropWhile_id)
  moreover have "last (rev ?m) = hd ?m" using m by (simp add: last_rev)
  moreover have "\<not> isspace (hd ?m)" using m by (rule dropWhile_hd)
  ultimately show ?thesis using l by simp
qed

lemma replace_first_prefix:
  "prefix old s \<Longrightarrow> replace_first old new s = new @ drop (length old) s"
  by (cases s) auto

text \<open>
  Claim C9. \<open>_strip_label\<close> gives \<open>None\<close> for a missing or empty text; for a text that
  starts with the label it gives the rest after the label, trimmed; for any other text it
  gives the text trimmed. Trimming removes only whitespace, at both ends, and leaves none
  there. \<open>"RATING 92"\<close> becomes \<open>"92"\<close>.
\<close>

theorem strip_label_spec:
  "strip_label None label = None
   \<and> strip_label (Some []) label = None
   \<and> (t \<noteq> [] \<and> prefix label t \<longrightarrow>
        strip_label (Some t) label = Some (strip (drop (length label) t)))
   \<and> (t \<noteq> [] \<and> \<not> prefix label t \<longrightarrow> strip_label (Some t) label = Some (strip t))
   \<and> (\<exists>a b. t = a @ strip t @ b \<and> list_all isspace a \<and> list_all isspace b)
   \<and> (strip t = [] \<or> (\<not> isspace (hd (strip t)) \<and> \<not> isspace (last (strip t))))
   \<and> strip_label (Some ''RATING 92'') ''RATING'' = Some ''92''"
proof -
  have ex: "strip_label (Some ''RATING 92'') ''RATING'' = Some ''92''"
    by (simp add: strip_label_def strip_def isspace_def)
  have pre: "t \<noteq> [] \<and> prefix label t \<longrightarrow>
        strip_label (Some t) label = Some (strip (drop (length label) t))"
    by (simp add: strip_label_def replace_first_prefix)
  have npre: "t \<noteq> [] \<and> \<not> prefix label t \<longrightarrow> strip_label (Some t) label = Some (strip t)"
    by (simp add: strip_label_def)
  have none: "strip_label None label = None" "strip_label (Some []) label = None"
    by (simp_all add: strip_label_def)
  show ?thesis using ex pre npre none strip_parts[of t] strip_ends[of t] by blast
qed

theorem strip_label_spec_witness:
  "strip_label (Some ''PRICE $25 '') ''PRICE'' = Some ''$25''
   \<and> strip_label (Some ''  92\<newline>'') ''RATING'' = Some ''92''"
proof -
  have a: "''PRICE $25 '' \<noteq> [] \<and> prefix ''PRICE'' ''PRICE $25 ''" by simp
  have b: "''  92\<newline>'' \<noteq> [] \<and> \<not> prefix ''RATING'' ''  92\<newline>''" by simp
  have c: "strip (drop (length ''PRICE'') ''PRICE $25 '') = ''$25''"
    by (simp add: strip_def isspace_def)
  have d: "strip ''  92\<newline>'' = ''92''"
    by (simp add: strip_def isspace_def)
  show ?thesis
    using a b c d strip_label_spec[of "''PRICE''" "''PRICE $25 ''"]
      strip_label_spec[of "''RATING''" "''  92\<newline>''"]
    by simp
qed

lemma py_index_from_end:
  "k < length xs \<Longrightarrow> py_index xs (- int (Suc k)) = Inr (rev xs ! k)"
proof -
  assume k: "k < length xs"
  have "nat (int (length xs) + (- 1 - int k)) = length xs - Suc k" using k by linarith
  then show ?thesis using k by (simp add: py_index_def rev_nth)
qed

lemma py_index_last: "xs \<noteq> [] \<Longrightarrow> py_index xs (- 1) = Inr (last xs)"
  using py_index_from_end[of 0 xs] by (simp add: last_rev [symmetric] hd_conv_nth [symmetric] hd_rev del: last_rev)

lemma nth_from_end_eq:
  "nth_from_end rl (int (Suc k)) rv =
     Inr (if Suc k \<le> length rl \<and> Some (rev rl ! k) \<noteq> rv then Some (rev rl ! k) else None)"
  by (auto simp: nth_from_end_def py_index_from_end simp del: of_nat_Suc)

lemma derive_regions_total:
  "derive_regions rl rv =
     Inr \<lparr>country = (if rl = [] then None else Some (last rl)),
          region_1 = (if rv \<noteq> None \<and> rv \<noteq> Some [] \<and> the rv \<in> set rl then rv else None),
          region_2 = (if 2 \<le> length rl \<and> Some (rev rl ! 1) \<noteq> rv
                      then Some (rev rl ! 1) else None),
          region_3 = (if 3 \<le> length rl \<and> Some (rev rl ! 2) \<noteq> rv
                      then Some (rev rl ! 2) else None)\<rparr>"
proof -
  have c: "rl \<noteq> [] \<Longrightarrow> py_index rl (- 1) = Inr (last rl)"
    by (rule py_index_last)
  have r2: "nth_from_end rl 2 rv =
     Inr (if 2 \<le> length rl \<and> Some (rev rl ! 1) \<noteq> rv then Some (rev rl ! 1) else None)"
    using nth_from_end_eq[of rl 1 rv] by simp
  have r3: "nth_from_end rl 3 rv =
     Inr (if 3 \<le> length rl \<and> Some (rev rl ! 2) \<noteq> rv then Some (rev rl ! 2) else None)"
    using nth_from_end_eq[of rl 2 rv] by (simp add: numeral_3_eq_3)
  have t: "truthy_str rv = (rv \<noteq> None \<and> rv \<noteq> Some [])" by (cases rv) auto
  show ?thesis
    unfolding derive_regions_def r2 r3 t using c by (simp add: Let_def)
qed

lemma read_detail_regions:
  "\<exists>d rg. read_detail url page = Inr d
     \<and> derive_regions (region_list_of (map text_content (all_elements page REGION_XPATH)))
          (text_or_none (first_text page ''div.region .value a'')) = Inr rg
     \<and> map_of d ''Country'' = Some (country rg) \<and> map_of d ''Region 1'' = Some (region_1 rg)
     \<and> map_of d ''Region 2'' = Some (region_2 rg) \<and> map_of d ''Region 3'' = Some (region_3 rg)
     \<and> map_of d ''URL'' = Some (Some url)"
proof -
  let ?rl = "region_list_of (map text_content (all_elements page REGION_XPATH))"
  let ?rv = "text_or_none (first_text page ''div.region .value a'')"
  obtain rg where rg: "derive_regions ?rl ?rv = Inr rg"
    using derive_regions_total[of ?rl ?rv] by blast
  show ?thesis
    unfolding read_detail_def Let_def rg by simp
qed

text \<open>
  Claim C1. The region derivation never raises. The country is the last element of the
  region list (absent for an empty list); region 1 is the primary-region value when that
  value is non-empty and occurs in the list, and absent otherwise; region 2 (region 3) is
  the second-to-last (third-to-last) element when the list is that long and the element
  differs from the primary-region value, and absent otherwise. The record read from a
  page carries these four values, derived from the region list and the primary-region
  value of that page. For the list Napa, California, USA with primary region Napa the
  result is USA, Napa, California and no region 3.
\<close>

theorem derive_regions_spec:
  "derive_regions rl rv =
     Inr \<lparr>country = (if rl = [] then None else Some (last rl)),
          region_1 = (if rv \<noteq> None \<and> rv \<noteq> Some [] \<and> the rv \<in> set rl then rv else None),
          region_2 = (if 2 \<le> length rl \<and> Some (rev rl ! 1) \<noteq> rv
                      then Some (rev rl ! 1) else None),
          region_3 = (if 3 \<le> length rl \<and> Some (rev rl ! 2) \<noteq> rv
                      then Some (rev rl ! 2) else None)\<rparr>
   \<and> (\<exists>d rg. read_detail url page = Inr d
         \<and> derive_regions (region_list_of (map text_content (all_elements page REGION_XPATH)))
              (text_or_none (first_text page ''div.region .value a'')) = Inr rg
         \<and> map_of d ''Country'' = Some (country rg)
         \<and> map_of d ''Region 1'' = Some (region_1 rg)
         \<and> map_of d ''Region 2'' = Some (region_2 rg)
         \<and> map_of d ''Region 3'' = Some (region_3 rg))
   \<and> derive_regions [''Napa'', ''California'', ''USA''] (Some ''Napa'') =
     Inr \<lparr>country = Some ''USA'', region_1 = Some ''Napa'',
          region_2 = Some ''California'', region_3 = None\<rparr>"
proof -
  have ex: "derive_regions [''Napa'', ''California'', ''USA''] (Some ''Napa'') =
     Inr \<lparr>country = Some ''USA'', region_1 = Some ''Napa'',
          region_2 = Some ''California'', region_3 = None\<rparr>"
    by (simp add: derive_regions_def nth_from_end_def py_index_def)
  have rd: "\<exists>d rg. read_detail url page = Inr d
         \<and> derive_regions (region_list_of (map text_content (all_elements page REGION_XPATH)))
              (text_or_none (first_text page ''div.region .value a'')) = Inr rg
         \<and> map_of d ''Country'' = Some (country rg)
         \<and> map_of d ''Region 1'' = Some (region_1 rg)
         \<and> map_of d ''Region 2'' = Some (region_2 rg)
         \<and> map_of d ''Region 3'' = Some (region_3 rg)"
    using read_detail_regions[of url page] by blast
  show ?thesis using derive_regions_total[of rl rv] rd ex by (intro conjI)
qed

theorem derive_regions_spec_witness:
  "derive_regions [''USA''] (Some ''USA'') =
     Inr \<lparr>country = Some ''USA'', region_1 = Some ''USA'', region_2 = None, region_3 = None\<rparr>"
  using derive_regions_spec[of "[''USA'']" "Some ''USA''"] by simp

text \<open>
  Claim C10. A non-empty primary-region value that is not in the region list, with a list
  of at least two elements whose second-to-last element differs from that value, gives a
  result with region 1 absent and region 2 present.
\<close>

theorem region_2_without_region_1:
  assumes "v \<noteq> []" and "v \<notin> set rl" and "2 \<le> length rl" and "rev rl ! 1 \<noteq> v"
  shows "\<exists>r. derive_regions rl (Some v) = Inr r \<and> region_1 r = None
              \<and> region_2 r = Some (rev rl ! 1) \<and> region_2 r \<noteq> None"
proof -
  have r2: "nth_from_end rl 2 (Some v) = Inr (Some (rev rl ! 1))"
    using nth_from_end_eq[of rl 1 "Some v"] assms by simp
  have r3: "\<exists>x. nth_from_end rl 3 (Some v) = Inr x"
    using nth_from_end_eq[of rl 2 "Some v"] by (simp add: numeral_3_eq_3)
  have ne: "rl \<noteq> []" using assms(3) by auto
  have c: "py_index rl (- 1) = Inr (last rl)"
    using ne by (rule py_index_last)
  from r3 obtain x where x: "nth_from_end rl 3 (Some v) = Inr x" by blast
  show ?thesis
    unfolding derive_regions_def r2 x using c ne assms(2) by (simp add: Let_def)
qed

theorem region_2_without_region_1_witness:
  "\<exists>r. derive_regions [''California'', ''USA''] (Some ''Napa Valley'') = Inr r
       \<and> region_1 r = None \<and> region_2 r = Some ''California'' \<and> region_2 r \<noteq> None"
  using region_2_without_region_1[of "''Napa Valley''" "[''California'', ''USA'']"]
  by simp

section \<open>Properties of the Batch Runner\<close>

lemma fetch_all_length: "length (fst (fetch_all fetch us w)) = length us"
proof (induction us arbitrary: w)
  case Nil
  show ?case by simp
next
  case (Cons u us)
  obtain res w1 where f: "fetch u w = (res, w1)" by (cases "fetch u w")
  obtain rest w2 where g: "fetch_all fetch us w1 = (rest, w2)"
    by (cases "fetch_all fetch us w1")
  have "length rest = length us" using Cons.IH[of w1] g by simp
  then show ?case using f g by simp
qed

lemma batch_loop_returns:
  assumes "\<not> (truthy_str out_csv \<and> k = 0)"
  shows "\<exists>st'. batch_loop fetch cols out_csv k i rs st = Inr st'"
  using assms
proof (induction rs arbitrary: i st)
  case Nil
  show ?case by simp
next
  case (Cons r rs)
  show ?case using Cons.prems Cons.IH
    by (simp add: Let_def split: prod.splits)
qed

lemma batch_loop_rows:
  assumes "batch_loop fetch cols out_csv k i rs st = Inr st'"
  shows "acc_rows st' = acc_rows st
           @ fst (fetch_all fetch (filter (\<lambda>u. u \<noteq> []) (map (url_of cols) rs)) (env st))
         \<and> env st' = snd (fetch_all fetch (filter (\<lambda>u. u \<noteq> []) (map (url_of cols) rs)) (env st))"
  using assms
proof (induction rs arbitrary: i st)
  case Nil
  then show ?case by simp
next
  case (Cons r rs)
  show ?case
  proof (cases "url_of cols r = []")
    case True
    then have "batch_loop fetch cols out_csv k (i + 1) rs st = Inr st'"
      using Cons.prems by simp
    from Cons.IH[OF this] show ?thesis using True by simp
  next
    case False
    obtain res w1 where f: "fetch (url_of cols r) (env st) = (res, w1)"
      by (cases "fetch (url_of cols r) (env st)")
    let ?row = "case res of Inr rc \<Rightarrow> rc | Inl e \<Rightarrow> error_row (url_of cols r) e"
    let ?st1 = "st\<lparr>acc_rows := acc_rows st @ [?row], env := w1\<rparr>"
    let ?st2 = "?st1\<lparr>written := written ?st1 @ [(the out_csv, acc_rows ?st1)]\<rparr>"
    have "batch_loop fetch cols out_csv k (i + 1) rs ?st1 = Inr st'
          \<or> batch_loop fetch cols out_csv k (i + 1) rs ?st2 = Inr st'"
      using Cons.prems False f by (simp add: Let_def split: if_splits)
    then show ?thesis
    proof
      assume "batch_loop fetch cols out_csv k (i + 1) rs ?st1 = Inr st'"
      from Cons.IH[OF this] show ?thesis using False f by (simp split: prod.splits)
    next
      assume "batch_loop fetch cols out_csv k (i + 1) rs ?st2 = Inr st'"
      from Cons.IH[OF this] show ?thesis using False f by (simp split: prod.splits)
    qed
  qed
qed

lemma upt_0_Suc_shift: "[0..<Suc n] = 0 # map Suc [0..<n]"
  by (simp add: upt_conv_Cons map_Suc_upt del: upt_Suc)

lemma filter_upt_Suc_shift:
  "filter P [0..<Suc n] = (if P 0 then [0] else []) @ map Suc (filter (\<lambda>j. P (Suc j)) [0..<n])"
  unfolding upt_0_Suc_shift by (simp add: filter_map comp_def)

lemma batch_loop_checkpoints:
  assumes "truthy_str out_csv" and "k \<noteq> 0"
  shows "\<exists>st'. batch_loop fetch cols out_csv k i rs st = Inr st'
           \<and> length (acc_rows st')
               = length (acc_rows st) + length (filter (\<lambda>r. url_of cols r \<noteq> []) rs)
           \<and> take (length (acc_rows st)) (acc_rows st') = acc_rows st
           \<and> written st' = written st
                @ map (\<lambda>j. (the out_csv,
                             take (length (acc_rows st)
                                   + length (filter (\<lambda>r. url_of cols r \<noteq> []) (take (Suc j) rs)))
                                  (acc_rows st')))
                    (filter (\<lambda>j. url_of cols (rs ! j) \<noteq> [] \<and> (i + int j + 1) mod k = 0)
                       [0..<length rs])"
proof (induction rs arbitrary: i st)
  case Nil
  show ?case by simp
next
  case (Cons r rs)
  let ?P = "\<lambda>r. url_of cols r \<noteq> []"
  let ?Q = "\<lambda>j. url_of cols ((r # rs) ! j) \<noteq> [] \<and> (i + int j + 1) mod k = 0"
  let ?Q' = "\<lambda>j. url_of cols (rs ! j) \<noteq> [] \<and> (i + 1 + int j + 1) mod k = 0"
  have shift: "filter ?Q [0..<length (r # rs)] =
      (if ?Q 0 then [0] else []) @ map Suc (filter ?Q' [0..<length rs])"
  proof -
    have "\<And>j. (i + int (Suc j) + 1) = (i + 1 + int j + 1)" by simp
    then show ?thesis
      using filter_upt_Suc_shift[of ?Q "length rs"] by (simp del: upt_Suc)
  qed
  show ?case
  proof (cases "url_of cols r = []")
    case True
    have step: "batch_loop fetch cols out_csv k i (r # rs) st =
                  batch_loop fetch cols out_csv k (i + 1) rs st"
      using True by simp
    from Cons.IH[of "i + 1" st] obtain st' where
      a: "batch_loop fetch cols out_csv k (i + 1) rs st = Inr st'"
      and b: "length (acc_rows st') = length (acc_rows st) + length (filter ?P rs)"
      and c: "take (length (acc_rows st)) (acc_rows st') = acc_rows st"
      and d: "written st' = written st
                @ map (\<lambda>j. (the out_csv,
                             take (length (acc_rows st) + length (filter ?P (take (Suc j) rs)))
                                  (acc_rows st')))
                    (filter ?Q' [0..<length rs])"
      by blast
    have "written st' = written st
                @ map (\<lambda>j. (the out_csv,
                             take (length (acc_rows st)
                                   + length (filter ?P (take (Suc j) (r # rs))))
                                  (acc_rows st')))
                    (filter ?Q [0..<length (r # rs)])"
      unfolding shift d using True by (simp add: comp_def)
    then show ?thesis using step a b c True by simp
  next
    case ne: False
    obtain res w1 where f: "fetch (url_of cols r) (env st) = (res, w1)"
      by (cases "fetch (url_of cols r) (env st)")
    let ?row = "case res of Inr rc \<Rightarrow> rc | Inl e \<Rightarrow> error_row (url_of cols r) e"
    let ?st1 = "st\<lparr>acc_rows := acc_rows st @ [?row], env := w1\<rparr>"
    let ?st2 = "?st1\<lparr>written := written ?st1 @ [(the out_csv, acc_rows ?st1)]\<rparr>"
    show ?thesis
    proof (cases "(i + 1) mod k = 0")
      case True
      have step: "batch_loop fetch cols out_csv k i (r # rs) st =
                    batch_loop fetch cols out_csv k (i + 1) rs ?st2"
        using ne f assms True by (simp add: Let_def)
      from Cons.IH[of "i + 1" ?st2] obtain st' where
        a: "batch_loop fetch cols out_csv k (i + 1) rs ?st2 = Inr st'"
        and b: "length (acc_rows st') = length (acc_rows ?st2) + length (filter ?P rs)"
        and c: "take (length (acc_rows ?st2)) (acc_rows st') = acc_rows ?st2"
        and d: "written st' = written ?st2
                  @ map (\<lambda>j. (the out_csv,
                               take (length (acc_rows ?st2) + length (filter ?P (take (Suc j) rs)))
                                    (acc_rows st')))
                      (filter ?Q' [0..<length rs])"
        by blast
      have c': "take (Suc (length (acc_rows st))) (acc_rows st') = acc_rows st @ [?row]"
        using c by simp
      have c'': "take (length (acc_rows st)) (acc_rows st') = acc_rows st"
        using arg_cong[OF c', of "take (length (acc_rows st))"] by (simp add: min_def)
      have "written st' = written st
                  @ map (\<lambda>j. (the out_csv,
                               take (length (acc_rows st)
                                     + length (filter ?P (take (Suc j) (r # rs))))
                                    (acc_rows st')))
                      (filter ?Q [0..<length (r # rs)])"
        unfolding shift d using True ne c' by (simp add: comp_def)
      then show ?thesis using step a b c'' ne by simp
    next
      case False
      have step: "batch_loop fetch cols out_csv k i (r # rs) st =
                    batch_loop fetch cols out_csv k (i + 1) rs ?st1"
        using ne f assms False by (simp add: Let_def)
      from Cons.IH[of "i + 1" ?st1] obtain st' where
        a: "batch_loop fetch cols out_csv k (i + 1) rs ?st1 = Inr st'"
        and b: "length (acc_rows st') = length (acc_rows ?st1) + length (filter ?P rs)"
        and c: "take (length (acc_rows ?st1)) (acc_rows st') = acc_rows ?st1"
        and d: "written st' = written ?st1
                  @ map (\<lambda>j. (the out_csv,
                               take (length (acc_rows ?st1) + length (filter ?P (take (Suc j) rs)))
                                    (acc_rows st')))
                      (filter ?Q' [0..<length rs])"
        by blast
      have c': "take (Suc (length (acc_rows st))) (acc_rows st') = acc_rows st @ [?row]"
        using c by simp
      have c'': "take (length (acc_rows st)) (acc_rows st') = acc_rows st"
        using arg_cong[OF c', of "take (length (acc_rows st))"] by (simp add: min_def)
      have "written st' = written st
                  @ map (\<lambda>j. (the out_csv,
                               take (length (acc_rows st)
                                     + length (filter ?P (take (Suc j) (r # rs))))
                                    (acc_rows st')))
                      (filter ?Q [0..<length (r # rs)])"
        unfolding shift d using False ne by (simp add: comp_def)
      then show ?thesis using step a b c'' ne by simp
    qed
  qed
qed

lemma fetch_all_nth:
  "j < length us \<Longrightarrow>
     \<exists>w'. fst (fetch_all fetch us w) ! j =
           (case fst (fetch (us ! j) w') of Inr rc \<Rightarrow> rc | Inl e \<Rightarrow> error_row (us ! j) e)"
proof (induction us arbitrary: w j)
  case Nil
  then show ?case by simp
next
  case (Cons u us)
  obtain res w1 where f: "fetch u w = (res, w1)" by (cases "fetch u w")
  obtain rest w2 where g: "fetch_all fetch us w1 = (rest, w2)"
    by (cases "fetch_all fetch us w1")
  show ?case
  proof (cases j)
    case 0
    have "fst (fetch_all fetch (u # us) w) ! j =
           (case fst (fetch ((u # us) ! j) w) of Inr rc \<Rightarrow> rc | Inl e \<Rightarrow> error_row ((u # us) ! j) e)"
      unfolding 0 using f g by (simp split: sum.splits)
    then show ?thesis by blast
  next
    case (Suc n)
    then have "n < length us" using Cons.prems by simp
    from Cons.IH[OF this, of w1] obtain w' where
      "fst (fetch_all fetch us w1) ! n =
         (case fst (fetch (us ! n) w') of Inr rc \<Rightarrow> rc | Inl e \<Rightarrow> error_row (us ! n) e)"
      by blast
    then have "fst (fetch_all fetch (u # us) w) ! j =
         (case fst (fetch ((u # us) ! j) w') of Inr rc \<Rightarrow> rc | Inl e \<Rightarrow> error_row ((u # us) ! j) e)"
      unfolding Suc using f g by (simp split: sum.splits)
    then show ?thesis by blast
  qed
qed

lemma url_of_URL_column:
  "''URL'' \<in> set cols \<Longrightarrow> r ''URL'' \<noteq> Text [] \<Longrightarrow> url_of cols r \<noteq> []"
proof -
  assume c: "''URL'' \<in> set cols" and t: "r ''URL'' \<noteq> Text []"
  have "py_str (r ''URL'') \<noteq> []"
  proof (cases "r ''URL''")
    case NaN
    then show ?thesis by simp
  next
    case (Text s)
    then show ?thesis using t by simp
  next
    case (Number c s)
    then show ?thesis by simp
  qed
  then show ?thesis using c by (simp add: url_of_def)
qed

text \<open>
  Claim C2, as amended. Unless an output path is set together with the checkpoint
  interval 0, the Batch Runner returns, and its result has exactly one row for every
  input row whose URL text is not empty, in input order: row \<open>j\<close> of the result is
  the record that the fetch of the \<open>j\<close>-th such URL returned, or its error row when that
  fetch raised. Rows with an empty URL text (every row of a frame with neither a \<open>URL\<close>
  nor a \<open>url\<close> column) are skipped. For a frame with a \<open>URL\<close> column and no
  empty text in it, the result has one row per input row.
\<close>

theorem scrape_one_row_per_url:
  assumes "\<not> (truthy_str out_csv \<and> checkpoint_every = 0)"
  shows "\<exists>result st.
     scrape_details_from_csv fetch df out_csv checkpoint_every w = Inr (result, st)
     \<and> result = fst (fetch_all fetch
                       (filter (\<lambda>u. u \<noteq> []) (map (url_of (columns df)) (records df))) w)
     \<and> length result = length (filter (\<lambda>r. url_of (columns df) r \<noteq> []) (records df))
     \<and> (\<forall>j < length result. \<exists>w'.
           result ! j =
             (case fst (fetch (filter (\<lambda>u. u \<noteq> []) (map (url_of (columns df)) (records df)) ! j) w') of
                Inr rc \<Rightarrow> rc
              | Inl e \<Rightarrow>
                  error_row (filter (\<lambda>u. u \<noteq> []) (map (url_of (columns df)) (records df)) ! j) e))
     \<and> (''URL'' \<in> set (columns df) \<and> (\<forall>r \<in> set (records df). r ''URL'' \<noteq> Text [])
          \<longrightarrow> length result = length (records df))"
proof -
  let ?urls = "filter (\<lambda>u. u \<noteq> []) (map (url_of (columns df)) (records df))"
  let ?st0 = "\<lparr>acc_rows = [], written = [], env = w\<rparr>"
  obtain st' where l: "batch_loop fetch (columns df) out_csv checkpoint_every 0 (records df) ?st0 = Inr st'"
    using batch_loop_returns[OF assms] by blast
  have rows: "acc_rows st' = fst (fetch_all fetch ?urls w)"
    using batch_loop_rows[OF l] by simp
  let ?fin = "if truthy_str out_csv
              then st'\<lparr>written := written st' @ [(the out_csv, acc_rows st')]\<rparr> else st'"
  have r: "scrape_details_from_csv fetch df out_csv checkpoint_every w = Inr (acc_rows st', ?fin)"
    by (simp add: scrape_details_from_csv_def l Let_def)
  have len: "length (acc_rows st') = length (filter (\<lambda>r. url_of (columns df) r \<noteq> []) (records df))"
    unfolding rows fetch_all_length by (simp add: filter_map comp_def)
  have nth: "\<forall>j < length (acc_rows st'). \<exists>w'.
           acc_rows st' ! j =
             (case fst (fetch (?urls ! j) w') of Inr rc \<Rightarrow> rc | Inl e \<Rightarrow> error_row (?urls ! j) e)"
  proof (intro allI impI)
    fix j
    assume "j < length (acc_rows st')"
    then have "j < length ?urls" unfolding rows fetch_all_length .
    from fetch_all_nth[OF this, of fetch w] show "\<exists>w'.
           acc_rows st' ! j =
             (case fst (fetch (?urls ! j) w') of Inr rc \<Rightarrow> rc | Inl e \<Rightarrow> error_row (?urls ! j) e)"
      unfolding rows .
  qed
  have full: "''URL'' \<in> set (columns df) \<and> (\<forall>r \<in> set (records df). r ''URL'' \<noteq> Text [])
          \<longrightarrow> length (acc_rows st') = length (records df)"
  proof
    assume h: "''URL'' \<in> set (columns df) \<and> (\<forall>r \<in> set (records df). r ''URL'' \<noteq> Text [])"
    then have "\<forall>r \<in> set (records df). url_of (columns df) r \<noteq> []"
      using url_of_URL_column by blast
    then have "filter (\<lambda>r. url_of (columns df) r \<noteq> []) (records df) = records df"
      by (simp add: filter_id_conv)
    then show "length (acc_rows st') = length (records df)" using len by simp
  qed
  show ?thesis using r rows len nth full by blast
qed

text \<open>
  Claim C2 as stated fails for a links frame without a \<open>URL\<close> and without a \<open>url\<close>
  column: it has one row, and the result has none.
\<close>

theorem scrape_skips_rows_without_url:
  "length (records links_without_url) = 1
   \<and> scrape_details_from_csv (\<lambda>u w. (Inr [(''URL'', Some u)], w)) links_without_url None 100 ()
       = Inr ([], \<lparr>acc_rows = [], written = [], env = ()\<rparr>)"
  by (simp add: links_without_url_def scrape_details_from_csv_def url_of_def)

theorem scrape_one_row_per_url_witness:
  "\<exists>st. scrape_details_from_csv flaky_fetch two_links None 100 0 =
       Inr ([[(''URL'', Some ''/r/1''), (''error'', Some ''Timeout 15000ms exceeded.'')],
             [(''Wine Name'', Some ''Beta''), (''URL'', Some ''/r/2'')]], st)"
proof -
  have h: "\<not> (truthy_str None \<and> (100::int) = 0)" by simp
  have u: "filter (\<lambda>u. u \<noteq> []) (map (url_of (columns two_links)) (records two_links))
             = [''/r/1'', ''/r/2'']"
    by (simp add: two_links_def url_of_def)
  have f: "fst (fetch_all flaky_fetch [''/r/1'', ''/r/2''] 0) =
       [[(''URL'', Some ''/r/1''), (''error'', Some ''Timeout 15000ms exceeded.'')],
        [(''Wine Name'', Some ''Beta''), (''URL'', Some ''/r/2'')]]"
    by (simp add: flaky_fetch_def error_row_def)
  from scrape_one_row_per_url[OF h, of flaky_fetch two_links 0]
  show ?thesis unfolding u f by blast
qed

text \<open>
  Claim C3, as amended. For a row with a URL, and unless an output path is set together
  with the checkpoint interval 0, whatever the fetch does the loop goes on with the
  remaining rows after appending one row: when the fetch raised (an exception of class
  \<open>Exception\<close>), the dict of exactly the two fields \<open>URL\<close> (the row's URL) and
  \<open>error\<close> (the text of the exception); when it returned a record, that record
  unchanged. The loop as a whole then returns; it does not end in the exception of a
  fetch, and its rows are the rows it had, then that one row, then the rows of the
  remaining input.
\<close>

theorem batch_row_failure_contained:
  assumes "url_of cols r \<noteq> []" and "\<not> (truthy_str out_csv \<and> k = 0)"
    and "fetch (url_of cols r) (env st) = (res, w1)"
  shows "batch_loop fetch cols out_csv k i (r # rs) st =
           batch_loop fetch cols out_csv k (i + 1) rs
             (let st1 = st\<lparr>acc_rows := acc_rows st @
                              [case res of
                                 Inl e \<Rightarrow> [(''URL'', Some (url_of cols r)),
                                           (''error'', Some (exc_str e))]
                               | Inr rc \<Rightarrow> rc],
                           env := w1\<rparr>
              in if truthy_str out_csv \<and> (i + 1) mod k = 0
                 then st1\<lparr>written := written st1 @ [(the out_csv, acc_rows st1)]\<rparr>
                 else st1)
         \<and> (\<exists>st'. batch_loop fetch cols out_csv k i (r # rs) st = Inr st'
               \<and> acc_rows st' =
                   acc_rows st
                   @ [case res of
                        Inl e \<Rightarrow> [(''URL'', Some (url_of cols r)), (''error'', Some (exc_str e))]
                      | Inr rc \<Rightarrow> rc]
                   @ fst (fetch_all fetch
                            (filter (\<lambda>u. u \<noteq> []) (map (url_of cols) rs)) w1))"
proof -
  have a: "batch_loop fetch cols out_csv k i (r # rs) st =
           batch_loop fetch cols out_csv k (i + 1) rs
             (let st1 = st\<lparr>acc_rows := acc_rows st @
                              [case res of
                                 Inl e \<Rightarrow> [(''URL'', Some (url_of cols r)),
                                           (''error'', Some (exc_str e))]
                               | Inr rc \<Rightarrow> rc],
                           env := w1\<rparr>
              in if truthy_str out_csv \<and> (i + 1) mod k = 0
                 then st1\<lparr>written := written st1 @ [(the out_csv, acc_rows st1)]\<rparr>
                 else st1)"
    using assms by (cases res) (auto simp: Let_def error_row_def)
  obtain st' where l: "batch_loop fetch cols out_csv k i (r # rs) st = Inr st'"
    using batch_loop_returns[OF assms(2)] by blast
  have "acc_rows st' =
          acc_rows st
          @ fst (fetch_all fetch
                   (filter (\<lambda>u. u \<noteq> []) (map (url_of cols) (r # rs))) (env st))"
    using batch_loop_rows[OF l] by (rule conjunct1)
  then have "acc_rows st' =
          acc_rows st
          @ [case res of
               Inl e \<Rightarrow> [(''URL'', Some (url_of cols r)), (''error'', Some (exc_str e))]
             | Inr rc \<Rightarrow> rc]
          @ fst (fetch_all fetch (filter (\<lambda>u. u \<noteq> []) (map (url_of cols) rs)) w1)"
    using assms(1,3) by (cases res) (simp_all add: error_row_def split: prod.splits)
  then have b: "\<exists>st'. batch_loop fetch cols out_csv k i (r # rs) st = Inr st'
               \<and> acc_rows st' =
                   acc_rows st
                   @ [case res of
                        Inl e \<Rightarrow> [(''URL'', Some (url_of cols r)), (''error'', Some (exc_str e))]
                      | Inr rc \<Rightarrow> rc]
                   @ fst (fetch_all fetch
                            (filter (\<lambda>u. u \<noteq> []) (map (url_of cols) rs)) w1)"
    using l by blast
  show ?thesis using a b by (rule conjI)
qed

theorem batch_row_failure_contained_witness:
  "batch_loop flaky_fetch (columns two_links) None 100 0 (records two_links)
       \<lparr>acc_rows = [], written = [], env = 0\<rparr>
     = Inr \<lparr>acc_rows = [[(''URL'', Some ''/r/1''), (''error'', Some ''Timeout 15000ms exceeded.'')],
                        [(''Wine Name'', Some ''Beta''), (''URL'', Some ''/r/2'')]],
            written = [], env = 2\<rparr>"
proof -
  let ?r = "\<lambda>c. if c = ''Wine Name'' then Text ''Alpha 2019'' else Text ''/r/1''"
  let ?r2 = "\<lambda>c. if c = ''Wine Name'' then Text ''Beta'' else Text ''/r/2''"
  have u: "url_of [''Wine Name'', ''URL''] ?r = ''/r/1''" by (simp add: url_of_def)
  have h1: "url_of [''Wine Name'', ''URL''] ?r \<noteq> []" unfolding u by simp
  have h2: "\<not> (truthy_str None \<and> (100::int) = 0)" by simp
  have h3: "flaky_fetch (url_of [''Wine Name'', ''URL''] ?r) (env \<lparr>acc_rows = [], written = [], env = (0::nat)\<rparr>)
              = (Inl (Exc PlaywrightTimeoutError ''Timeout 15000ms exceeded.''), 1)"
    unfolding u by (simp add: flaky_fetch_def)
  from batch_row_failure_contained[where fetch = flaky_fetch and cols = "[''Wine Name'', ''URL'']"
      and r = ?r and out_csv = None and k = 100
      and st = "\<lparr>acc_rows = [], written = [], env = (0::nat)\<rparr>"
      and res = "Inl (Exc PlaywrightTimeoutError ''Timeout 15000ms exceeded.'')"
      and ?w1.0 = 1 and i = 0 and rs = "[?r2]", OF h1 h2 h3]
  show ?thesis
    unfolding u by (simp add: two_links_def url_of_def flaky_fetch_def numeral_2_eq_2)
qed

text \<open>
  Claim C3 as stated fails with an output path and the checkpoint interval 0: the fetch of
  the first row raises and is caught, and then the checkpoint test of line 389 raises
  \<open>ZeroDivisionError\<close>, which ends the batch.
\<close>

theorem batch_aborts_after_caught_failure:
  "fst (flaky_fetch (url_of (columns two_links) (hd (records two_links))) 0)
     = Inl (Exc PlaywrightTimeoutError ''Timeout 15000ms exceeded.'')
   \<and> batch_loop flaky_fetch (columns two_links) (Some ''out/wine_info.csv'') 0 0
         (records two_links) \<lparr>acc_rows = [], written = [], env = 0\<rparr>
       = Inl (Exc ZeroDivisionError ''integer modulo by zero'')
   \<and> scrape_details_from_csv flaky_fetch two_links (Some ''out/wine_info.csv'') 0 0
       = Inl (Exc ZeroDivisionError ''integer modulo by zero'')"
  by (simp add: scrape_details_from_csv_def two_links_def url_of_def flaky_fetch_def)

lemma upt_1_shift: "[1..<n + 1] = map Suc [0..<n]"
  by (simp add: map_Suc_upt del: upt_Suc)

lemma batch_loop_all_skipped:
  "\<forall>r \<in> set rs. url_of cols r = [] \<Longrightarrow>
     batch_loop fetch cols out_csv k i rs st = Inr st"
  by (induction rs arbitrary: i) simp_all

text \<open>
  Claim C4, as amended. With an output path set and a checkpoint interval other than 0,
  the Batch Runner returns and writes to the output path, in this order: after every row
  that has a URL and whose number (counted from 1) is a multiple of the interval, the
  rows gathered so far; and at the end, once more, all rows, whether or not the last row
  was a checkpoint. Every write is the whole frame so far to the same path, and the last
  frame written is the result: one row per input row that has a URL, in input order.
  When every row has a URL, the write after row \<open>p\<close> holds the first \<open>p\<close> rows of the
  result and the result has one row per input row; for 250 such rows and the interval
  100 there are three writes, after row 100, after row 200 and at the end.
\<close>

theorem scrape_checkpoints:
  assumes "truthy_str out_csv" and "checkpoint_every \<noteq> 0"
  shows "\<exists>result st.
     scrape_details_from_csv fetch df out_csv checkpoint_every w = Inr (result, st)
     \<and> result = fst (fetch_all fetch
                       (filter (\<lambda>u. u \<noteq> []) (map (url_of (columns df)) (records df))) w)
     \<and> written st =
         map (\<lambda>p. (the out_csv,
                    take (length (filter (\<lambda>r. url_of (columns df) r \<noteq> [])
                                    (take p (records df)))) result))
             (filter (\<lambda>p. url_of (columns df) (records df ! (p - 1)) \<noteq> []
                          \<and> int p mod checkpoint_every = 0)
                [1..<length (records df) + 1])
         @ [(the out_csv, result)]
     \<and> ((\<forall>r \<in> set (records df). url_of (columns df) r \<noteq> []) \<longrightarrow>
          length result = length (records df)
          \<and> written st =
              map (\<lambda>p. (the out_csv, take p result))
                  (filter (\<lambda>p. int p mod checkpoint_every = 0) [1..<length (records df) + 1])
              @ [(the out_csv, result)]
          \<and> (length (records df) = 250 \<and> checkpoint_every = 100 \<longrightarrow>
               written st = [(the out_csv, take 100 result), (the out_csv, take 200 result),
                             (the out_csv, result)]))"
proof -
  let ?st0 = "\<lparr>acc_rows = [], written = [], env = w\<rparr>"
  let ?n = "length (records df)"
  let ?P = "\<lambda>r. url_of (columns df) r \<noteq> []"
  let ?Q = "\<lambda>p. ?P (records df ! (p - 1)) \<and> int p mod checkpoint_every = 0"
  from batch_loop_checkpoints[OF assms, of fetch "columns df" 0 "records df" ?st0] obtain st' where
    l: "batch_loop fetch (columns df) out_csv checkpoint_every 0 (records df) ?st0 = Inr st'"
    and len: "length (acc_rows st') = length (filter ?P (records df))"
    and wr: "written st' =
                map (\<lambda>j. (the out_csv,
                             take (length (filter ?P (take (Suc j) (records df)))) (acc_rows st')))
                    (filter (\<lambda>j. ?P (records df ! j) \<and> (int j + 1) mod checkpoint_every = 0)
                       [0..<?n])"
    by auto
  let ?fin = "st'\<lparr>written := written st' @ [(the out_csv, acc_rows st')]\<rparr>"
  have r: "scrape_details_from_csv fetch df out_csv checkpoint_every w = Inr (acc_rows st', ?fin)"
    by (simp add: scrape_details_from_csv_def l Let_def assms(1))
  have rows: "acc_rows st' = fst (fetch_all fetch
                 (filter (\<lambda>u. u \<noteq> []) (map (url_of (columns df)) (records df))) w)"
    using batch_loop_rows[OF l] by simp
  have "map (\<lambda>j. (the out_csv,
                   take (length (filter ?P (take (Suc j) (records df)))) (acc_rows st')))
            (filter (\<lambda>j. ?P (records df ! j) \<and> (int j + 1) mod checkpoint_every = 0) [0..<?n])
        = map (\<lambda>p. (the out_csv,
                   take (length (filter ?P (take p (records df)))) (acc_rows st')))
            (filter ?Q [1..<?n + 1])"
    unfolding upt_1_shift by (simp add: filter_map comp_def add.commute)
  then have wr': "written ?fin =
         map (\<lambda>p. (the out_csv,
                    take (length (filter ?P (take p (records df)))) (acc_rows st')))
             (filter ?Q [1..<?n + 1])
         @ [(the out_csv, acc_rows st')]"
    using wr by simp
  have full: "(\<forall>r \<in> set (records df). ?P r) \<longrightarrow>
          length (acc_rows st') = ?n
          \<and> written ?fin =
              map (\<lambda>p. (the out_csv, take p (acc_rows st')))
                  (filter (\<lambda>p. int p mod checkpoint_every = 0) [1..<?n + 1])
              @ [(the out_csv, acc_rows st')]
          \<and> (?n = 250 \<and> checkpoint_every = 100 \<longrightarrow>
               written ?fin = [(the out_csv, take 100 (acc_rows st')),
                               (the out_csv, take 200 (acc_rows st')),
                               (the out_csv, acc_rows st')])"
  proof
    assume all: "\<forall>r \<in> set (records df). ?P r"
    have fl: "filter ?P xs = xs" if "set xs \<subseteq> set (records df)" for xs
      using that all by (simp add: filter_id_conv subset_iff)
    have n: "length (acc_rows st') = ?n" using len fl[of "records df"] by simp
    have q: "filter ?Q [1..<?n + 1] = filter (\<lambda>p. int p mod checkpoint_every = 0) [1..<?n + 1]"
    proof (rule filter_cong[OF refl])
      fix p
      assume "p \<in> set [1..<?n + 1]"
      then have "p - 1 < ?n" by auto
      then have "?P (records df ! (p - 1))" using all by simp
      then show "?Q p = (int p mod checkpoint_every = 0)" by simp
    qed
    have m: "map (\<lambda>p. (the out_csv,
                    take (length (filter ?P (take p (records df)))) (acc_rows st')))
               (filter (\<lambda>p. int p mod checkpoint_every = 0) [1..<?n + 1])
           = map (\<lambda>p. (the out_csv, take p (acc_rows st')))
               (filter (\<lambda>p. int p mod checkpoint_every = 0) [1..<?n + 1])"
    proof (rule map_cong[OF refl])
      fix p
      assume "p \<in> set (filter (\<lambda>p. int p mod checkpoint_every = 0) [1..<?n + 1])"
      then have p: "p \<le> ?n" by auto
      have "filter ?P (take p (records df)) = take p (records df)"
        by (rule fl) (rule set_take_subset)
      then have "length (filter ?P (take p (records df))) = p" using p by simp
      then show "(the out_csv, take (length (filter ?P (take p (records df)))) (acc_rows st'))
                 = (the out_csv, take p (acc_rows st'))"
        by simp
    qed
    have w: "written ?fin =
              map (\<lambda>p. (the out_csv, take p (acc_rows st')))
                  (filter (\<lambda>p. int p mod checkpoint_every = 0) [1..<?n + 1])
              @ [(the out_csv, acc_rows st')]"
      unfolding wr' q m ..
    have f: "filter (\<lambda>p. int p mod 100 = 0) [1..<250 + 1] = [100, 200]"
      by code_simp
    have ex: "?n = 250 \<and> checkpoint_every = 100 \<longrightarrow>
               written ?fin = [(the out_csv, take 100 (acc_rows st')),
                               (the out_csv, take 200 (acc_rows st')),
                               (the out_csv, acc_rows st')]"
    proof
      assume h: "?n = 250 \<and> checkpoint_every = 100"
      show "written ?fin = [(the out_csv, take 100 (acc_rows st')),
                               (the out_csv, take 200 (acc_rows st')),
                               (the out_csv, acc_rows st')]"
        unfolding w using h f by simp
    qed
    show "length (acc_rows st') = ?n
          \<and> written ?fin =
              map (\<lambda>p. (the out_csv, take p (acc_rows st')))
                  (filter (\<lambda>p. int p mod checkpoint_every = 0) [1..<?n + 1])
              @ [(the out_csv, acc_rows st')]
          \<and> (?n = 250 \<and> checkpoint_every = 100 \<longrightarrow>
               written ?fin = [(the out_csv, take 100 (acc_rows st')),
                               (the out_csv, take 200 (acc_rows st')),
                               (the out_csv, acc_rows st')])"
      using n w ex by (intro conjI)
  qed
  show ?thesis using r rows wr' full by blast
qed

theorem scrape_checkpoints_witness:
  "\<exists>result st.
     scrape_details_from_csv flaky_fetch links_250 (Some ''out/wine_info.csv'') 100 0
       = Inr (result, st)
     \<and> length result = 250
     \<and> written st = [(''out/wine_info.csv'', take 100 result),
                     (''out/wine_info.csv'', take 200 result),
                     (''out/wine_info.csv'', result)]"
proof -
  have h1: "truthy_str (Some ''out/wine_info.csv'')" by simp
  have h2: "(100::int) \<noteq> 0" by simp
  have h3: "\<forall>r \<in> set (records links_250). url_of (columns links_250) r \<noteq> []"
    by (simp add: links_250_def url_of_def)
  have n: "length (records links_250) = 250" by (simp add: links_250_def)
  from scrape_checkpoints[OF h1 h2, of flaky_fetch links_250 0] obtain result st where
    a: "scrape_details_from_csv flaky_fetch links_250 (Some ''out/wine_info.csv'') 100 0
          = Inr (result, st)"
    and b: "(\<forall>r \<in> set (records links_250). url_of (columns links_250) r \<noteq> []) \<longrightarrow>
          length result = length (records links_250)
          \<and> written st =
              map (\<lambda>p. (the (Some ''out/wine_info.csv''), take p result))
                  (filter (\<lambda>p. int p mod 100 = 0) [1..<length (records links_250) + 1])
              @ [(the (Some ''out/wine_info.csv''), result)]
          \<and> (length (records links_250) = 250 \<and> (100::int) = 100 \<longrightarrow>
               written st = [(the (Some ''out/wine_info.csv''), take 100 result),
                             (the (Some ''out/wine_info.csv''), take 200 result),
                             (the (Some ''out/wine_info.csv''), result)])"
    by blast
  from b h3 have c: "length result = length (records links_250)"
    and d: "length (records links_250) = 250 \<and> (100::int) = 100 \<longrightarrow>
               written st = [(the (Some ''out/wine_info.csv''), take 100 result),
                             (the (Some ''out/wine_info.csv''), take 200 result),
                             (the (Some ''out/wine_info.csv''), result)]"
    by blast+
  have e: "written st = [(the (Some ''out/wine_info.csv''), take 100 result),
                         (the (Some ''out/wine_info.csv''), take 200 result),
                         (the (Some ''out/wine_info.csv''), result)]"
    using d n by blast
  have "length result = 250
      \<and> written st = [(''out/wine_info.csv'', take 100 result),
                       (''out/wine_info.csv'', take 200 result),
                       (''out/wine_info.csv'', result)]"
    unfolding e using c n by simp
  then show ?thesis using a by blast
qed

text \<open>
  Claim C4 as stated fails in two ways. With the checkpoint interval 0 the operation raises
  at the first row and writes nothing, not even the final frame. And a links frame of 250
  rows without a \<open>URL\<close> or \<open>url\<close> column is written once, as a frame of no rows.
\<close>

theorem scrape_checkpoints_not_for_every_input:
  "scrape_details_from_csv flaky_fetch two_links (Some ''out/wine_info.csv'') 0 0
     = Inl (Exc ZeroDivisionError ''integer modulo by zero'')
   \<and> length (records links_250_without_url) = 250
   \<and> scrape_details_from_csv flaky_fetch links_250_without_url (Some ''out/wine_info.csv'') 100 0
       = Inr ([], \<lparr>acc_rows = [], written = [(''out/wine_info.csv'', [])], env = 0\<rparr>)"
proof -
  have a: "scrape_details_from_csv flaky_fetch two_links (Some ''out/wine_info.csv'') 0 0
     = Inl (Exc ZeroDivisionError ''integer modulo by zero'')"
    by (simp add: scrape_details_from_csv_def two_links_def url_of_def flaky_fetch_def)
  have n: "length (records links_250_without_url) = 250"
    by (simp add: links_250_without_url_def)
  have "\<forall>r \<in> set (records links_250_without_url).
          url_of (columns links_250_without_url) r = []"
    by (simp add: links_250_without_url_def url_of_def)
  then have "batch_loop flaky_fetch (columns links_250_without_url) (Some ''out/wine_info.csv'')
               100 0 (records links_250_without_url) \<lparr>acc_rows = [], written = [], env = 0\<rparr>
             = Inr \<lparr>acc_rows = [], written = [], env = 0\<rparr>"
    by (rule batch_loop_all_skipped)
  then have b: "scrape_details_from_csv flaky_fetch links_250_without_url
                  (Some ''out/wine_info.csv'') 100 0
       = Inr ([], \<lparr>acc_rows = [], written = [(''out/wine_info.csv'', [])], env = 0\<rparr>)"
    by (simp add: scrape_details_from_csv_def)
  show ?thesis using a n b by simp
qed

section \<open>The Challenge Handler after a solved challenge\<close>

lemma lower_captcha_text: "lower ''Solve the CAPTCHA to continue'' = ''solve the captcha to continue''"
  by code_simp

lemma lower_plain_text: "lower ''Wine reviews'' = ''wine reviews''"
  by code_simp

lemma captcha_page_challenged:
  "view w = captcha_page \<Longrightarrow> looks_like_challenge w"
  by (simp add: looks_like_challenge_def captcha_page_def or_empty_def lower_captcha_text
        sublist_Cons_right)

lemma plain_page_clear:
  "view w = plain_page \<Longrightarrow> \<not> looks_like_challenge w"
  by (simp add: looks_like_challenge_def plain_page_def or_empty_def lower_plain_text
        sublist_Cons_right)

lemma human_pause_first_draw_zero:
  "randoms w = [] \<or> hd (randoms w) = 0 \<Longrightarrow>
   human_pause 1000000 2000000 w =
     (Inr (), w\<lparr>clock := clock w + 1000000, randoms := tl (randoms w),
                events := events w @ [Slept 1000000]\<rparr>)"
  by (cases "randoms w")
     (auto simp: human_pause_def random_def raw_draw_def sleep_def log_event_def)

text \<open>
  Claim C5, at an input where the code does not do what the claim says. With the default
  configuration (manual intervention on, a timeout of 180 seconds, a cooldown window of
  12 to 22 seconds), on a page that shows a challenge which is gone after one second, the
  handler prints the prompt, pauses one second, finds the challenge gone and returns. It
  does not raise, and no cooldown follows: no sleep of 12 to 22 seconds is among its
  effects.
\<close>

theorem handle_challenge_returns_when_cleared:
  "looks_like_challenge (start_world solved_site [])
   \<and> manual_challenge default_config
   \<and> handle_challenge default_config (start_world solved_site []) =
       (Inr (), (start_world solved_site [])
                  \<lparr>clock := 1000000, events := [Printed CHALLENGE_PROMPT, Slept 1000000]\<rparr>)
   \<and> \<not> (\<exists>n. 12 \<le> n \<and> n \<le> 22
            \<and> Slept (n * 1000000)
                \<in> set (events (snd (handle_challenge default_config (start_world solved_site [])))))"
proof -
  let ?w = "start_world solved_site []"
  let ?wp = "log_event (Printed CHALLENGE_PROMPT) ?w"
  let ?w1 = "?w\<lparr>clock := 1000000, events := [Printed CHALLENGE_PROMPT, Slept 1000000]\<rparr>"
  have v0: "view ?w = captcha_page"
    by (simp add: view_def start_world_def solved_site_def)
  have ch: "looks_like_challenge ?w" using v0 by (rule captcha_page_challenged)
  have p: "human_pause 1000000 2000000 ?wp = (Inr (), ?w1)"
    by (subst human_pause_first_draw_zero) (simp_all add: log_event_def start_world_def)
  have v1: "view ?w1 = plain_page"
    by (simp add: view_def start_world_def solved_site_def)
  have cl: "\<not> looks_like_challenge ?w1" using v1 by (rule plain_page_clear)
  have td: "timedelta_seconds (challenge_timeout_s default_config) = Inr 180000000"
    by (simp add: timedelta_seconds_def default_config_def)
  have da: "datetime_add (utcnow ?w) 180000000 = Inr 180000000"
    by (simp add: datetime_add_def utcnow_def start_world_def DATETIME_MIN_def DATETIME_MAX_def)
  have dl: "utcnow ?wp < 180000000"
    by (simp add: utcnow_def log_event_def start_world_def)
  have poll: "challenge_wait 180000000 ?wp = (Inr True, ?w1)"
    using dl p cl by (subst challenge_wait.simps) simp
  have m: "manual_challenge default_config" by (simp add: default_config_def)
  have r: "handle_challenge default_config ?w = (Inr (), ?w1)"
    using ch m poll by (simp add: handle_challenge_def td da)
  have "\<not> (\<exists>n. 12 \<le> n \<and> n \<le> 22 \<and> Slept (n * 1000000) \<in> set (events ?w1))"
    by auto
  then show ?thesis using ch m r by simp
qed

section \<open>Selector timeouts\<close>

lemma goto_ok:
  "goto_error (site w) url (clock w) = None \<Longrightarrow> goto url w = (Inr (), w\<lparr>location := url\<rparr>)"
  by (simp add: goto_def)

lemma handle_challenge_clear:
  "\<not> looks_like_challenge w \<Longrightarrow> handle_challenge cfg w = (Inr (), w)"
  by (simp add: handle_challenge_def)

lemma human_pause_quiet:
  "randoms w = [] \<Longrightarrow> 0 \<le> a \<Longrightarrow> a \<le> b \<Longrightarrow> a \<le> 9223372036854775 \<Longrightarrow>
   human_pause a b w = (Inr (), w\<lparr>clock := clock w + a, events := events w @ [Slept a]\<rparr>)"
  by (simp add: human_pause_def random_def raw_draw_def sleep_def log_event_def)

lemma incremental_scroll_quiet:
  "randoms w = [] \<Longrightarrow>
   incremental_scroll 3 w =
     (Inr (), w\<lparr>clock := clock w + 600000,
               events := events w @ [Wheel 400, Slept 200000, Wheel 400, Slept 200000,
                                     Wheel 400, Slept 200000]\<rparr>)"
  by (simp add: numeral_3_eq_3 randint_def raw_draw_def log_event_def human_pause_quiet)

lemma new_context_quiet:
  "randoms w = [] \<Longrightarrow>
   new_context default_config w =
     (Inr False, w\<lparr>location := ''about:blank'', events := events w @ [SessionOpened True]\<rparr>)"
  by (simp add: new_context_def viewport_def randint_def raw_draw_def default_config_def
        log_event_def)

lemma empty_page_clear: "view w = empty_page \<Longrightarrow> \<not> looks_like_challenge w"
  by (simp add: looks_like_challenge_def empty_page_def or_empty_def lower_plain_text
        sublist_Cons_right)

lemma listing_page_clear: "view w = listing_page \<Longrightarrow> \<not> looks_like_challenge w"
  by (simp add: looks_like_challenge_def listing_page_def or_empty_def lower_plain_text
        sublist_Cons_right CAPTCHA_FRAMES_def LISTING_ANCHOR_def)

text \<open>
  Claim C8. In \<open>fetch_detail\<close>, an exception of the wait for the title selector is the
  result of the call (after the session is torn down). In the page loop of
  \<open>collect_links\<close>, a timeout of the wait for the listing anchor changes neither the
  rows nor the world, and the loop goes on with the remaining pages.
\<close>

theorem selector_timeout_asymmetry:
  "(new_context cfg w = (Inr browser, w0) \<and> goto url w0 = (Inr (), w1)
      \<and> handle_challenge cfg w1 = (Inr (), w2)
      \<and> wait_for_selector ''.review-title'' 15000 w2 = (Inl e, w3)
     \<longrightarrow> fetch_detail cfg url w = (Inl e, close_session browser (save_state cfg w3)))
   \<and> (goto (build_search_url pg sty yr) v = (Inr (), v1)
      \<and> handle_challenge cfg v1 = (Inr (), v2)
      \<and> human_pause 400000 900000 v2 = (Inr (), v3)
      \<and> incremental_scroll 3 v3 = (Inr (), v4)
      \<and> wait_for_selector LISTING_ANCHOR 10000 v4 = (Inl e', v5)
      \<and> exc_cls e' = PlaywrightTimeoutError
     \<longrightarrow> pages_loop cfg sty yr (pg # pgs) acc v = pages_loop cfg sty yr pgs acc v5 \<and> v5 = v4)"
proof (intro conjI impI)
  assume "new_context cfg w = (Inr browser, w0) \<and> goto url w0 = (Inr (), w1)
      \<and> handle_challenge cfg w1 = (Inr (), w2)
      \<and> wait_for_selector ''.review-title'' 15000 w2 = (Inl e, w3)"
  then show "fetch_detail cfg url w = (Inl e, close_session browser (save_state cfg w3))"
    by (simp add: fetch_detail_def)
next
  assume a: "goto (build_search_url pg sty yr) v = (Inr (), v1)
      \<and> handle_challenge cfg v1 = (Inr (), v2)
      \<and> human_pause 400000 900000 v2 = (Inr (), v3)
      \<and> incremental_scroll 3 v3 = (Inr (), v4)
      \<and> wait_for_selector LISTING_ANCHOR 10000 v4 = (Inl e', v5)
      \<and> exc_cls e' = PlaywrightTimeoutError"
  then show "pages_loop cfg sty yr (pg # pgs) acc v = pages_loop cfg sty yr pgs acc v5"
    by simp
  show "v5 = v4" using a by (auto simp: wait_for_selector_def split: option.splits)
qed

theorem selector_timeout_asymmetry_witness:
  "fst (fetch_detail default_config ''https://www.wineenthusiast.com/buying-guide/alpha''
          (start_world empty_site []))
     = Inl (Exc PlaywrightTimeoutError ''Timeout exceeded.'')
   \<and> fst (pages_loop default_config None None [1] [] (start_world empty_site [])) = Inr []"
proof -
  let ?url = "''https://www.wineenthusiast.com/buying-guide/alpha''"
  let ?e = "Exc PlaywrightTimeoutError ''Timeout exceeded.''"
  let ?w = "start_world empty_site []"
  let ?wo = "?w\<lparr>location := ''about:blank'', events := events ?w @ [SessionOpened True]\<rparr>"
  let ?wa = "?wo\<lparr>location := ?url\<rparr>"
  have a0: "new_context default_config ?w = (Inr False, ?wo)"
    by (rule new_context_quiet) (simp add: start_world_def)
  have a1: "goto ?url ?wo = (Inr (), ?wa)"
    by (rule goto_ok) (simp add: start_world_def empty_site_def)
  have "view ?wa = empty_page" by (simp add: view_def start_world_def empty_site_def)
  then have "\<not> looks_like_challenge ?wa" by (rule empty_page_clear)
  then have a2: "handle_challenge default_config ?wa = (Inr (), ?wa)"
    by (rule handle_challenge_clear)
  have a3: "wait_for_selector ''.review-title'' 15000 ?wa = (Inl ?e, ?wa)"
    by (simp add: wait_for_selector_def view_def start_world_def empty_site_def empty_page_def)
  let ?u = "build_search_url 1 None None"
  let ?va = "?w\<lparr>location := ?u\<rparr>"
  let ?vc = "?va\<lparr>clock := clock ?va + 400000, events := events ?va @ [Slept 400000]\<rparr>"
  let ?vd = "?vc\<lparr>clock := clock ?vc + 600000,
               events := events ?vc @ [Wheel 400, Slept 200000, Wheel 400, Slept 200000,
                                     Wheel 400, Slept 200000]\<rparr>"
  have b1: "goto ?u ?w = (Inr (), ?va)"
    by (rule goto_ok) (simp add: start_world_def empty_site_def)
  have "view ?va = empty_page" by (simp add: view_def start_world_def empty_site_def)
  then have "\<not> looks_like_challenge ?va" by (rule empty_page_clear)
  then have b2: "handle_challenge default_config ?va = (Inr (), ?va)"
    by (rule handle_challenge_clear)
  have b3: "human_pause 400000 900000 ?va = (Inr (), ?vc)"
    by (rule human_pause_quiet) (simp_all add: start_world_def)
  have b4: "incremental_scroll 3 ?vc = (Inr (), ?vd)"
    by (rule incremental_scroll_quiet) (simp add: start_world_def)
  have b5: "wait_for_selector LISTING_ANCHOR 10000 ?vd = (Inl ?e, ?vd)"
    by (simp add: wait_for_selector_def view_def start_world_def empty_site_def empty_page_def)
  have b6: "exc_cls ?e = PlaywrightTimeoutError" by simp
  note t = selector_timeout_asymmetry[where cfg = default_config and w = ?w and browser = False
      and ?w0.0 = ?wo and url = ?url and ?w1.0 = ?wa and ?w2.0 = ?wa and e = ?e and ?w3.0 = ?wa
      and pg = 1 and sty = None and yr = None and v = ?w and ?v1.0 = ?va and ?v2.0 = ?va
      and ?v3.0 = ?vc and ?v4.0 = ?vd and e' = ?e and ?v5.0 = ?vd and pgs = "[]" and acc = "[]"]
  have A: "fetch_detail default_config ?url ?w
             = (Inl ?e, close_session False (save_state default_config ?wa))"
    using t a0 a1 a2 a3 by blast
  have B: "pages_loop default_config None None [1] [] ?w
             = pages_loop default_config None None [] [] ?vd"
    using t b1 b2 b3 b4 b5 b6 by blast
  show ?thesis unfolding A B by simp
qed

section \<open>Properties of the Link Collector\<close>

lemma drop_dups_keys:
  "set (map (\<lambda>r. map_of r key) (drop_dups key seen rs)) \<inter> set seen = {}
   \<and> distinct (map (\<lambda>r. map_of r key) (drop_dups key seen rs))"
proof (induction rs arbitrary: seen)
  case Nil
  show ?case by simp
next
  case (Cons r rs)
  show ?case
  proof (cases "map_of r key \<in> set seen")
    case True
    then show ?thesis using Cons.IH[of seen] by simp
  next
    case False
    then show ?thesis using Cons.IH[of "map_of r key # seen"] by auto
  qed
qed

lemma drop_dups_find:
  "find (\<lambda>r. map_of r key = u) (drop_dups key seen rs) =
     (if u \<in> set seen then None else find (\<lambda>r. map_of r key = u) rs)"
proof (induction rs arbitrary: seen)
  case Nil
  show ?case by simp
next
  case (Cons r rs)
  show ?case
  proof (cases "map_of r key \<in> set seen")
    case True
    then show ?thesis using Cons.IH[of seen] by auto
  next
    case False
    then show ?thesis using Cons.IH[of "map_of r key # seen"] by auto
  qed
qed

lemma drop_dups_subseq: "subseq (drop_dups key seen rs) rs"
  by (induction rs arbitrary: seen) auto


lemma collect_links_result:
  assumes "fst (collect_links cfg max_pages styles years out_csv w) = Inr df"
  shows "\<exists>browser wa gathered wb.
           new_context cfg w = (Inr browser, wa)
           \<and> styles_loop cfg (iter_or_none styles) (iter_or_none years) max_pages [] wa
               = (Inr gathered, wb)
           \<and> df = links_frame gathered"
proof -
  obtain res wa where n: "new_context cfg w = (res, wa)" by (cases "new_context cfg w")
  show ?thesis
  proof (cases res)
    case (Inl e)
    then show ?thesis using assms n by (simp add: collect_links_def)
  next
    case (Inr browser)
    obtain r2 wb where s: "styles_loop cfg (iter_or_none styles) (iter_or_none years) max_pages [] wa
               = (r2, wb)"
      by (cases "styles_loop cfg (iter_or_none styles) (iter_or_none years) max_pages [] wa")
    show ?thesis
    proof (cases r2)
      case (Inl e)
      then show ?thesis using assms n Inr s by (simp add: collect_links_def)
    next
      case g: (Inr gathered)
      have "df = links_frame gathered"
        using assms n Inr s g by (simp add: collect_links_def Let_def)
      then show ?thesis using n Inr s g by blast
    qed
  qed
qed

lemma strip_alpha: "strip '' Alpha 2019 '' = ''Alpha 2019''"
  by (simp add: strip_def isspace_def)

lemma strip_beta: "strip ''Beta'' = ''Beta''"
  by (simp add: strip_def isspace_def)

lemma strip_again: "strip ''Alpha (again)'' = ''Alpha (again)''"
  by (simp add: strip_def isspace_def)

lemma strip_nolink: "strip ''No link'' = ''No link''"
  by (simp add: strip_def isspace_def)

lemma listing_anchors:
  "anchors_loop (all_elements listing_page LISTING_ANCHOR) [] =
     [link_row ''Alpha 2019'' ''/r/1'', link_row ''Beta'' ''/r/2'',
      link_row ''Alpha (again)'' ''/r/1'']"
  by (simp add: listing_page_def or_empty_def strip_alpha strip_beta strip_again strip_nolink)

lemma collect_links_listing:
  "fst (collect_links default_config 1 None None (Some ''out/wine_links.csv'')
          (start_world listing_site []))
     = Inr [link_row ''Alpha 2019'' ''/r/1'', link_row ''Beta'' ''/r/2'']"
proof -
  let ?w = "start_world listing_site []"
  let ?wo = "?w\<lparr>location := ''about:blank'', events := events ?w @ [SessionOpened True]\<rparr>"
  let ?u = "build_search_url 1 None None"
  let ?va = "?wo\<lparr>location := ?u\<rparr>"
  let ?vc = "?va\<lparr>clock := clock ?va + 400000, events := events ?va @ [Slept 400000]\<rparr>"
  let ?vd = "?vc\<lparr>clock := clock ?vc + 600000,
               events := events ?vc @ [Wheel 400, Slept 200000, Wheel 400, Slept 200000,
                                     Wheel 400, Slept 200000]\<rparr>"
  let ?ve = "?vd\<lparr>clock := clock ?vd + 600000, events := events ?vd @ [Slept 600000]\<rparr>"
  let ?rows = "[link_row ''Alpha 2019'' ''/r/1'', link_row ''Beta'' ''/r/2'',
                link_row ''Alpha (again)'' ''/r/1'']"
  have a0: "new_context default_config ?w = (Inr False, ?wo)"
    by (rule new_context_quiet) (simp add: start_world_def)
  have b1: "goto ?u ?wo = (Inr (), ?va)"
    by (rule goto_ok) (simp add: start_world_def listing_site_def)
  have "view ?va = listing_page" by (simp add: view_def start_world_def listing_site_def)
  then have "\<not> looks_like_challenge ?va" by (rule listing_page_clear)
  then have b2: "handle_challenge default_config ?va = (Inr (), ?va)"
    by (rule handle_challenge_clear)
  have b3: "human_pause 400000 900000 ?va = (Inr (), ?vc)"
    by (rule human_pause_quiet) (simp_all add: start_world_def)
  have b4: "incremental_scroll 3 ?vc = (Inr (), ?vd)"
    by (rule incremental_scroll_quiet) (simp add: start_world_def)
  have vd: "view ?vd = listing_page" by (simp add: view_def start_world_def listing_site_def)
  have b5: "wait_for_selector LISTING_ANCHOR 10000 ?vd = (Inr (), ?vd)"
    unfolding wait_for_selector_def vd by (simp add: listing_page_def)
  have b6: "human_pause 600000 1400000 ?vd = (Inr (), ?ve)"
    by (rule human_pause_quiet) (simp_all add: start_world_def)
  have an: "anchors_loop (all_elements (view ?vd) LISTING_ANCHOR) [] = ?rows"
    unfolding vd by (rule listing_anchors)
  have pl: "pages_loop default_config None None [1] [] ?wo = (Inr ?rows, ?ve)"
    using b1 b2 b3 b4 b5 b6 an by simp
  have "[1..1] = [1::int]" by (simp add: upto.simps)
  then have sl: "styles_loop default_config (iter_or_none None) (iter_or_none None) 1 [] ?wo
               = (Inr ?rows, ?ve)"
    using pl by (simp add: iter_or_none_def)
  have lf: "links_frame ?rows = [link_row ''Alpha 2019'' ''/r/1'', link_row ''Beta'' ''/r/2'']"
    by (simp add: links_frame_def drop_duplicates_def link_row_def)
  show ?thesis
    by (simp add: collect_links_def a0 sl lf Let_def)
qed

text \<open>
  Claim C6. The frame that the Link Collector makes of the gathered rows has no two rows
  with the same URL; for every URL value its first row in the frame is the first row with
  that URL among the gathered rows (so the name kept is the first one seen), and the
  frame keeps the order of the gathered rows. Whenever \<open>collect_links\<close> returns, what
  it returns is that frame of the rows its loops gathered, so no two of its rows share a
  URL.
\<close>

theorem collect_links_dedup:
  "distinct (map (\<lambda>r. map_of r ''URL'') (links_frame acc))
   \<and> find (\<lambda>r. map_of r ''URL'' = u) (links_frame acc) = find (\<lambda>r. map_of r ''URL'' = u) acc
   \<and> subseq (links_frame acc) acc
   \<and> (fst (collect_links cfg max_pages styles years out_csv w) = Inr df \<longrightarrow>
        distinct (map (\<lambda>r. map_of r ''URL'') df)
        \<and> (\<exists>browser wa gathered wb.
               new_context cfg w = (Inr browser, wa)
               \<and> styles_loop cfg (iter_or_none styles) (iter_or_none years) max_pages [] wa
                   = (Inr gathered, wb)
               \<and> df = links_frame gathered))"
proof -
  have frame: "distinct (map (\<lambda>r. map_of r ''URL'') (links_frame rs))
     \<and> find (\<lambda>r. map_of r ''URL'' = u) (links_frame rs) = find (\<lambda>r. map_of r ''URL'' = u) rs
     \<and> subseq (links_frame rs) rs" for rs
  proof (cases "rs = []")
    case True
    then show ?thesis by (simp add: links_frame_def)
  next
    case False
    then have "links_frame rs = drop_dups ''URL'' [] rs"
      by (simp add: links_frame_def drop_duplicates_def)
    then show ?thesis
      using drop_dups_keys[of "''URL''" "[]" rs] drop_dups_find[of "''URL''" u "[]" rs]
        drop_dups_subseq[of "''URL''" "[]" rs]
      by simp
  qed
  have ret: "fst (collect_links cfg max_pages styles years out_csv w) = Inr df \<longrightarrow>
        distinct (map (\<lambda>r. map_of r ''URL'') df)
        \<and> (\<exists>browser wa gathered wb.
               new_context cfg w = (Inr browser, wa)
               \<and> styles_loop cfg (iter_or_none styles) (iter_or_none years) max_pages [] wa
                   = (Inr gathered, wb)
               \<and> df = links_frame gathered)"
  proof
    assume "fst (collect_links cfg max_pages styles years out_csv w) = Inr df"
    from collect_links_result[OF this] obtain browser wa gathered wb where
      g: "new_context cfg w = (Inr browser, wa)"
         "styles_loop cfg (iter_or_none styles) (iter_or_none years) max_pages [] wa
            = (Inr gathered, wb)"
         "df = links_frame gathered"
      by blast
    have "distinct (map (\<lambda>r. map_of r ''URL'') df)" unfolding g(3) using frame[of gathered] by simp
    then show "distinct (map (\<lambda>r. map_of r ''URL'') df)
        \<and> (\<exists>browser wa gathered wb.
               new_context cfg w = (Inr browser, wa)
               \<and> styles_loop cfg (iter_or_none styles) (iter_or_none years) max_pages [] wa
                   = (Inr gathered, wb)
               \<and> df = links_frame gathered)"
      using g by blast
  qed
  show ?thesis using frame[of acc] ret by blast
qed

theorem collect_links_dedup_witness:
  "fst (collect_links default_config 1 None None (Some ''out/wine_links.csv'')
          (start_world listing_site []))
     = Inr [link_row ''Alpha 2019'' ''/r/1'', link_row ''Beta'' ''/r/2'']
   \<and> distinct (map (\<lambda>r. map_of r ''URL'')
                  [link_row ''Alpha 2019'' ''/r/1'', link_row ''Beta'' ''/r/2''])
   \<and> find (\<lambda>r. map_of r ''URL'' = Some (Some ''/r/1''))
        (links_frame [link_row ''Alpha 2019'' ''/r/1'', link_row ''Beta'' ''/r/2'',
                      link_row ''Alpha (again)'' ''/r/1''])
     = Some (link_row ''Alpha 2019'' ''/r/1'')"
proof -
  let ?rows = "[link_row ''Alpha 2019'' ''/r/1'', link_row ''Beta'' ''/r/2'',
                link_row ''Alpha (again)'' ''/r/1'']"
  have b: "find (\<lambda>r. map_of r ''URL'' = Some (Some ''/r/1'')) ?rows
             = Some (link_row ''Alpha 2019'' ''/r/1'')"
    by (simp add: link_row_def)
  note t = collect_links_dedup[where acc = ?rows and u = "Some (Some ''/r/1'')"
      and cfg = default_config and max_pages = 1 and styles = None and years = None
      and out_csv = "Some ''out/wine_links.csv''" and w = "start_world listing_site []"
      and df = "[link_row ''Alpha 2019'' ''/r/1'', link_row ''Beta'' ''/r/2'']"]
  show ?thesis using t b collect_links_listing by simp
qed

end
